theory Spec2Isabelle
  imports Main
begin

section \<open>Python primitives used by \<open>VISinger/data_utils.py\<close>\<close>

text \<open>
  Python integers are unbounded, so lengths, boundaries, batch size, replica count, rank
  and epoch are \<open>int\<close>; \<open>//\<close> and \<open>%\<close> are floor division and floor modulus, which
  is what \<open>div\<close> and \<open>mod\<close> on \<open>int\<close> compute. Every place where the source can raise
  is a branch that returns \<open>Inl\<close> of the exception.
\<close>

datatype error = IndexError | ZeroDivisionError | ValueError | AssertionError | RuntimeError

text \<open>\<open>xs[i]\<close>: a negative index counts from the end, an index out of range raises.\<close>

definition py_index :: "'a list \<Rightarrow> int \<Rightarrow> error + 'a" where
  "py_index xs i =
     (let n = int (length xs); j = (if i < 0 then i + n else i)
      in if 0 \<le> j \<and> j < n then Inr (xs ! nat j) else Inl IndexError)"

section \<open>\<open>DistributedBucketSampler._bisect\<close>\<close>

text \<open>
  \<^verbatim>\<open>
  def _bisect(self, x, lo=0, hi=None):
      if hi is None:
          hi = len(self.boundaries) - 1
      if hi > lo:
          mid = (hi + lo) // 2
          if self.boundaries[mid] < x and x <= self.boundaries[mid+1]:
              return mid
          elif x <= self.boundaries[mid]:
              return self._bisect(x, lo, mid)
          else:
              return self._bisect(x, mid + 1, hi)
      else:
          return -1
  \<close>
  The optional argument \<open>hi\<close> is an \<open>int option\<close>. The conjunction short-circuits,
  so \<open>boundaries[mid+1]\<close> is read only when \<open>boundaries[mid] < x\<close>.
\<close>

definition hi_default :: "int list \<Rightarrow> int option \<Rightarrow> int" where
  "hi_default boundaries hi = (case hi of None \<Rightarrow> int (length boundaries) - 1 | Some h \<Rightarrow> h)"

function bisect :: "int list \<Rightarrow> int \<Rightarrow> int \<Rightarrow> int option \<Rightarrow> error + int" where
  "bisect boundaries x lo hi =
     (let hi = hi_default boundaries hi in
      if hi > lo then
        (let mid = (hi + lo) div 2 in
         case py_index boundaries mid of
           Inl e \<Rightarrow> Inl e
         | Inr b_mid \<Rightarrow>
            (case (if b_mid < x
                   then (case py_index boundaries (mid + 1) of
                           Inl e \<Rightarrow> Inl e | Inr b_next \<Rightarrow> Inr (x \<le> b_next))
                   else Inr False) of
               Inl e \<Rightarrow> Inl e
             | Inr True \<Rightarrow> Inr mid
             | Inr False \<Rightarrow>
                 if x \<le> b_mid then bisect boundaries x lo (Some mid)
                 else bisect boundaries x (mid + 1) (Some hi)))
      else Inr (- 1))"
  by pat_completeness auto
termination
  by (relation "measure (\<lambda>(boundaries, x, lo, hi). nat (hi_default boundaries hi - lo))")
     (auto simp: hi_default_def)

text \<open>
  The same search with a bound on the number of calls: \<open>fuel\<close> is the number of calls
  (the first one included) the search may still make, and \<open>None\<close> means that the bound
  was reached before a call returned.
\<close>

fun bisect_fuel :: "nat \<Rightarrow> int list \<Rightarrow> int \<Rightarrow> int \<Rightarrow> int option \<Rightarrow> (error + int) option" where
  "bisect_fuel 0 boundaries x lo hi = None"
| "bisect_fuel (Suc fuel) boundaries x lo hi =
     (let hi = hi_default boundaries hi in
      if hi > lo then
        (let mid = (hi + lo) div 2 in
         case py_index boundaries mid of
           Inl e \<Rightarrow> Some (Inl e)
         | Inr b_mid \<Rightarrow>
            (case (if b_mid < x
                   then (case py_index boundaries (mid + 1) of
                           Inl e \<Rightarrow> Inl e | Inr b_next \<Rightarrow> Inr (x \<le> b_next))
                   else Inr False) of
               Inl e \<Rightarrow> Some (Inl e)
             | Inr True \<Rightarrow> Some (Inr mid)
             | Inr False \<Rightarrow>
                 if x \<le> b_mid then bisect_fuel fuel boundaries x lo (Some mid)
                 else bisect_fuel fuel boundaries x (mid + 1) (Some hi)))
      else Some (Inr (- 1)))"

section \<open>\<open>DistributedBucketSampler._create_buckets\<close>\<close>

text \<open>
  \<^verbatim>\<open>
  def _create_buckets(self):
      buckets = [[] for _ in range(len(self.boundaries) - 1)]
      for i in range(len(self.lengths)):
          length = self.lengths[i]
          idx_bucket = self._bisect(length)
          if idx_bucket != -1:
              buckets[idx_bucket].append(i)

      for i in range(len(buckets) - 1, 0, -1):
          if len(buckets[i]) == 0:
              buckets.pop(i)
              self.boundaries.pop(i+1)

      num_samples_per_bucket = []
      for i in range(len(buckets)):
          len_bucket = len(buckets[i])
          total_batch_size = self.num_replicas * self.batch_size
          rem = (total_batch_size - (len_bucket % total_batch_size)) % total_batch_size
          num_samples_per_bucket.append(len_bucket + rem)
      return buckets, num_samples_per_bucket
  \<close>
  Sample indices are positions of \<open>self.lengths\<close>, so they are \<open>nat\<close>. The three loops
  are three recursive functions over the values of their \<open>range\<close>.
\<close>

text \<open>\<open>buckets[idx].append(i)\<close>, with Python's indexing of \<open>buckets\<close>.\<close>

definition bucket_append :: "nat list list \<Rightarrow> int \<Rightarrow> nat \<Rightarrow> error + nat list list" where
  "bucket_append buckets idx i =
     (let n = int (length buckets); j = (if idx < 0 then idx + n else idx)
      in if 0 \<le> j \<and> j < n then Inr (buckets[nat j := buckets ! nat j @ [i]])
         else Inl IndexError)"

text \<open>The first loop; \<open>is\<close> holds the values of \<open>i\<close> still to visit.\<close>

fun assign_samples ::
  "int list \<Rightarrow> int list \<Rightarrow> nat list \<Rightarrow> nat list list \<Rightarrow> error + nat list list" where
  "assign_samples boundaries lengths [] buckets = Inr buckets"
| "assign_samples boundaries lengths (i # is) buckets =
     (case py_index lengths (int i) of
        Inl e \<Rightarrow> Inl e
      | Inr len \<Rightarrow>
         (case bisect boundaries len 0 None of
            Inl e \<Rightarrow> Inl e
          | Inr idx_bucket \<Rightarrow>
              if idx_bucket \<noteq> - 1 then
                (case bucket_append buckets idx_bucket i of
                   Inl e \<Rightarrow> Inl e
                 | Inr buckets' \<Rightarrow> assign_samples boundaries lengths is buckets')
              else assign_samples boundaries lengths is buckets))"

text \<open>\<open>xs.pop(i)\<close> for a non-negative \<open>i\<close>; the popped element is not used.\<close>

definition py_pop :: "'a list \<Rightarrow> nat \<Rightarrow> error + 'a list" where
  "py_pop xs i = (if i < length xs then Inr (take i xs @ drop (Suc i) xs) else Inl IndexError)"

text \<open>
  The second loop. \<open>range(len(buckets) - 1, 0, -1)\<close> is evaluated once, before the first
  \<open>pop\<close>, and counts from \<open>len(buckets) - 1\<close> down to \<open>1\<close>: index \<open>0\<close> is not visited.
\<close>

definition prune_range :: "nat \<Rightarrow> nat list" where
  "prune_range n = rev [1..<n]"

fun prune_empty ::
  "nat list \<Rightarrow> nat list list \<Rightarrow> int list \<Rightarrow> error + (nat list list \<times> int list)" where
  "prune_empty [] buckets boundaries = Inr (buckets, boundaries)"
| "prune_empty (i # is) buckets boundaries =
     (case py_index buckets (int i) of
        Inl e \<Rightarrow> Inl e
      | Inr bucket \<Rightarrow>
          if length bucket = 0 then
            (case py_pop buckets i of
               Inl e \<Rightarrow> Inl e
             | Inr buckets' \<Rightarrow>
                (case py_pop boundaries (i + 1) of
                   Inl e \<Rightarrow> Inl e
                 | Inr boundaries' \<Rightarrow> prune_empty is buckets' boundaries'))
          else prune_empty is buckets boundaries)"

text \<open>The body of the third loop: the padded count of a bucket of \<open>len_bucket\<close> samples.\<close>

definition padded_count :: "int \<Rightarrow> int \<Rightarrow> int \<Rightarrow> error + int" where
  "padded_count num_replicas batch_size len_bucket =
     (let total_batch_size = num_replicas * batch_size in
      if total_batch_size = 0 then Inl ZeroDivisionError
      else
        (let rem = (total_batch_size - (len_bucket mod total_batch_size)) mod total_batch_size
         in Inr (len_bucket + rem)))"

fun count_samples :: "int \<Rightarrow> int \<Rightarrow> nat list list \<Rightarrow> error + int list" where
  "count_samples num_replicas batch_size [] = Inr []"
| "count_samples num_replicas batch_size (bucket # rest) =
     (case padded_count num_replicas batch_size (int (length bucket)) of
        Inl e \<Rightarrow> Inl e
      | Inr n \<Rightarrow>
         (case count_samples num_replicas batch_size rest of
            Inl e \<Rightarrow> Inl e
          | Inr ns \<Rightarrow> Inr (n # ns)))"

text \<open>
  The result is \<open>(buckets, num_samples_per_bucket)\<close> as returned, together with
  \<open>self.boundaries\<close> as the second loop leaves it (the list is mutated in place).
\<close>

definition create_buckets ::
  "int list \<Rightarrow> int list \<Rightarrow> int \<Rightarrow> int \<Rightarrow> error + (nat list list \<times> int list \<times> int list)" where
  "create_buckets lengths boundaries num_replicas batch_size =
     (case assign_samples boundaries lengths [0..<length lengths]
             (replicate (nat (int (length boundaries) - 1)) []) of
        Inl e \<Rightarrow> Inl e
      | Inr buckets \<Rightarrow>
         (case prune_empty (prune_range (length buckets)) buckets boundaries of
            Inl e \<Rightarrow> Inl e
          | Inr (buckets', boundaries') \<Rightarrow>
             (case count_samples num_replicas batch_size buckets' of
                Inl e \<Rightarrow> Inl e
              | Inr num_samples_per_bucket \<Rightarrow>
                  Inr (buckets', num_samples_per_bucket, boundaries'))))"

section \<open>\<open>DistributedBucketSampler.__init__\<close>\<close>

text \<open>
  \<^verbatim>\<open>
  def __init__(self, dataset, batch_size, boundaries, num_replicas=None, rank=None, shuffle=True):
      super().__init__(dataset, num_replicas=num_replicas, rank=rank, shuffle=shuffle)
      self.lengths = dataset.lengths
      self.batch_size = batch_size
      self.boundaries = boundaries

      self.buckets, self.num_samples_per_bucket = self._create_buckets()
      self.total_size = sum(self.num_samples_per_bucket)
      self.num_samples = self.total_size // self.num_replicas
  \<close>
  The sampler object is a record of the attributes the class reads and writes. The base
  class (\<open>torch.utils.data.distributed.DistributedSampler\<close>) is a library: its
  constructor, which runs first, raises \<open>ValueError\<close> when \<open>rank\<close> is outside
  \<open>0..num_replicas-1\<close>, and otherwise stores \<open>num_replicas\<close>, \<open>rank\<close> and \<open>shuffle\<close> and
  sets \<open>epoch\<close> to \<open>0\<close>; \<open>set_epoch\<close> later overwrites \<open>epoch\<close>. The attribute \<open>batches\<close>
  does not exist until the first iteration, hence the \<open>option\<close>.
\<close>

record sampler =
  lengths :: "int list"
  batch_size :: int
  boundaries :: "int list"
  num_replicas :: int
  rank :: int
  shuffle :: bool
  epoch :: int
  buckets :: "nat list list"
  num_samples_per_bucket :: "int list"
  total_size :: int
  num_samples :: int
  batches :: "nat list list option"

definition init :: "int list \<Rightarrow> int \<Rightarrow> int list \<Rightarrow> int \<Rightarrow> int \<Rightarrow> bool \<Rightarrow> error + sampler" where
  "init dataset_lengths bsize bnds nreplicas rnk shuf =
     (if rnk \<ge> nreplicas \<or> rnk < 0 then Inl ValueError
      else
        (case create_buckets dataset_lengths bnds nreplicas bsize of
           Inl e \<Rightarrow> Inl e
         | Inr (bkts, counts, bnds') \<Rightarrow>
             if nreplicas = 0 then Inl ZeroDivisionError
             else Inr \<lparr> lengths = dataset_lengths, batch_size = bsize,
                        boundaries = bnds', num_replicas = nreplicas, rank = rnk,
                        shuffle = shuf, epoch = 0, buckets = bkts,
                        num_samples_per_bucket = counts,
                        total_size = sum_list counts,
                        num_samples = sum_list counts div nreplicas,
                        batches = None \<rparr>))"

section \<open>\<open>DistributedBucketSampler.__iter__\<close>\<close>

text \<open>
  \<^verbatim>\<open>
  def __iter__(self):
    g = torch.Generator()
    g.manual_seed(self.epoch)

    indices = []
    if self.shuffle:
        for bucket in self.buckets:
            indices.append(torch.randperm(len(bucket), generator=g).tolist())
    else:
        for bucket in self.buckets:
            indices.append(list(range(len(bucket))))

    batches = []
    for i in range(len(self.buckets)):
        bucket = self.buckets[i]
        len_bucket = len(bucket)
        ids_bucket = indices[i]
        num_samples_bucket = self.num_samples_per_bucket[i]

        rem = num_samples_bucket - len_bucket
        ids_bucket = ids_bucket + ids_bucket * (rem // len_bucket) + ids_bucket[:(rem % len_bucket)]

        ids_bucket = ids_bucket[self.rank::self.num_replicas]

        for j in range(len(ids_bucket) // self.batch_size):
            batch = [bucket[idx] for idx in ids_bucket[j*self.batch_size:(j+1)*self.batch_size]]
            batches.append(batch)

    if self.shuffle:
        batch_ids = torch.randperm(len(batches), generator=g).tolist()
        batches = [batches[i] for i in batch_ids]
    self.batches = batches

    assert len(self.batches) * self.batch_size == self.num_samples
    return iter(self.batches)
  \<close>
  The random number generator is the library's. It is a parameter of the model: a state
  type \<open>'g\<close>; \<open>manual_seed\<close>, which gives the state for a seed or raises; and \<open>randperm\<close>,
  which returns a list and the state it leaves behind.
\<close>

record 'g generator =
  manual_seed :: "int \<Rightarrow> error + 'g"
  randperm :: "nat \<Rightarrow> 'g \<Rightarrow> nat list \<times> 'g"

text \<open>
  What the library promises of \<open>manual_seed\<close>: it accepts exactly the seeds from
  \<open>-2^63\<close> to \<open>2^64 - 1\<close> and raises for any other.
\<close>

definition seed_in_range :: "int \<Rightarrow> bool" where
  "seed_in_range e = (- (2 ^ 63) \<le> e \<and> e \<le> 2 ^ 64 - 1)"

definition valid_manual_seed :: "(int \<Rightarrow> error + 'g) \<Rightarrow> bool" where
  "valid_manual_seed ms =
     (\<forall>e. if seed_in_range e then (\<exists>g. ms e = Inr g) else (\<exists>err. ms e = Inl err))"

text \<open>
  What the library promises of \<open>torch.randperm(n)\<close>, whatever the state of the generator:
  a permutation of \<open>0..n-1\<close>.
\<close>

definition valid_randperm :: "(nat \<Rightarrow> 'g \<Rightarrow> nat list \<times> 'g) \<Rightarrow> bool" where
  "valid_randperm rp = (\<forall>n g. distinct (fst (rp n g)) \<and> set (fst (rp n g)) = {0..<n})"

subsection \<open>List operations of Python\<close>

text \<open>\<open>xs * k\<close>: no copy at all when \<open>k\<close> is not positive.\<close>

definition py_repeat :: "'a list \<Rightarrow> int \<Rightarrow> 'a list" where
  "py_repeat xs k = concat (replicate (nat k) xs)"

text \<open>\<open>xs[:k]\<close>: a negative \<open>k\<close> counts from the end.\<close>

definition py_take :: "'a list \<Rightarrow> int \<Rightarrow> 'a list" where
  "py_take xs k = (if k < 0 then take (nat (int (length xs) + k)) xs else take (nat k) xs)"

text \<open>\<open>xs[a:b]\<close>: both bounds are brought into \<open>0..len(xs)\<close> first.\<close>

definition clamp_index :: "nat \<Rightarrow> int \<Rightarrow> nat" where
  "clamp_index n k = (if k < 0 then nat (max 0 (k + int n)) else nat (min k (int n)))"

definition py_slice :: "'a list \<Rightarrow> int \<Rightarrow> int \<Rightarrow> 'a list" where
  "py_slice xs a b = drop (clamp_index (length xs) a) (take (clamp_index (length xs) b) xs)"

text \<open>
  \<open>xs[start::step]\<close>: the positions of a list of \<open>n\<close> elements that the slice reads, in
  the order it reads them. With a positive step it walks up from \<open>start\<close> (brought into
  \<open>0..n\<close>); with a negative step it walks down from \<open>start\<close> (brought into \<open>-1..n-1\<close>) to
  the first element. A step of zero raises \<open>ValueError\<close>.
\<close>

definition slice_positions :: "nat \<Rightarrow> int \<Rightarrow> int \<Rightarrow> nat list" where
  "slice_positions n start step =
     (if step > 0 then
        (let s = (if start < 0 then max 0 (start + int n) else min start (int n))
         in map (\<lambda>k. nat (s + int k * step)) [0..<nat ((int n - s + step - 1) div step)])
      else
        (let s = (if start < 0 then max (- 1) (start + int n) else min start (int n - 1))
         in map (\<lambda>k. nat (s + int k * step)) [0..<nat (s div (- step) + 1)]))"

definition py_stride :: "'a list \<Rightarrow> int \<Rightarrow> int \<Rightarrow> error + 'a list" where
  "py_stride xs start step =
     (if step = 0 then Inl ValueError
      else Inr (map (\<lambda>p. xs ! p) (slice_positions (length xs) start step)))"

text \<open>\<open>[xs[i] for i in idxs]\<close>\<close>

fun gather :: "'a list \<Rightarrow> nat list \<Rightarrow> error + 'a list" where
  "gather xs [] = Inr []"
| "gather xs (i # is) =
     (case py_index xs (int i) of
        Inl e \<Rightarrow> Inl e
      | Inr v \<Rightarrow> (case gather xs is of Inl e \<Rightarrow> Inl e | Inr vs \<Rightarrow> Inr (v # vs)))"

subsection \<open>The index lists\<close>

text \<open>One permutation per bucket, drawn in bucket order from the same generator.\<close>

fun shuffled_indices ::
  "(nat \<Rightarrow> 'g \<Rightarrow> nat list \<times> 'g) \<Rightarrow> nat list list \<Rightarrow> 'g \<Rightarrow> nat list list \<times> 'g" where
  "shuffled_indices rp [] g = ([], g)"
| "shuffled_indices rp (bucket # rest) g =
     (case rp (length bucket) g of
        (perm, g1) \<Rightarrow>
          (case shuffled_indices rp rest g1 of (perms, g2) \<Rightarrow> (perm # perms, g2)))"

definition identity_indices :: "nat list list \<Rightarrow> nat list list" where
  "identity_indices bkts = map (\<lambda>bucket. [0..<length bucket]) bkts"

subsection \<open>The batches of one bucket\<close>

text \<open>
  \<open>ids_bucket + ids_bucket * (rem // len_bucket) + ids_bucket[:(rem % len_bucket)]\<close>;
  both divisions raise when the bucket is empty.
\<close>

definition extend_ids :: "nat list \<Rightarrow> int \<Rightarrow> int \<Rightarrow> error + nat list" where
  "extend_ids ids_bucket rem len_bucket =
     (if len_bucket = 0 then Inl ZeroDivisionError
      else Inr (ids_bucket @ py_repeat ids_bucket (rem div len_bucket)
                  @ py_take ids_bucket (rem mod len_bucket)))"

text \<open>The inner loop; \<open>js\<close> holds the values of \<open>j\<close> still to visit.\<close>

fun make_batches :: "nat list \<Rightarrow> nat list \<Rightarrow> int \<Rightarrow> nat list \<Rightarrow> error + nat list list" where
  "make_batches bucket ids_bucket bsize [] = Inr []"
| "make_batches bucket ids_bucket bsize (j # js) =
     (case gather bucket (py_slice ids_bucket (int j * bsize) ((int j + 1) * bsize)) of
        Inl e \<Rightarrow> Inl e
      | Inr batch \<Rightarrow>
         (case make_batches bucket ids_bucket bsize js of
            Inl e \<Rightarrow> Inl e
          | Inr rest \<Rightarrow> Inr (batch # rest)))"

text \<open>The body of the loop over \<open>i\<close>: the batches bucket \<open>i\<close> adds.\<close>

definition bucket_batches :: "sampler \<Rightarrow> nat list list \<Rightarrow> nat \<Rightarrow> error + nat list list" where
  "bucket_batches s indices i =
     (case py_index (buckets s) (int i) of
        Inl e \<Rightarrow> Inl e
      | Inr bucket \<Rightarrow>
         (case py_index indices (int i) of
            Inl e \<Rightarrow> Inl e
          | Inr ids_bucket \<Rightarrow>
             (case py_index (num_samples_per_bucket s) (int i) of
                Inl e \<Rightarrow> Inl e
              | Inr num_samples_bucket \<Rightarrow>
                 (let len_bucket = int (length bucket);
                      rem = num_samples_bucket - len_bucket
                  in case extend_ids ids_bucket rem len_bucket of
                       Inl e \<Rightarrow> Inl e
                     | Inr extended \<Rightarrow>
                        (case py_stride extended (rank s) (num_replicas s) of
                           Inl e \<Rightarrow> Inl e
                         | Inr sub \<Rightarrow>
                             if batch_size s = 0 then Inl ZeroDivisionError
                             else make_batches bucket sub (batch_size s)
                                    [0..<nat (int (length sub) div batch_size s)])))))"

text \<open>The loop over \<open>i\<close>; \<open>is\<close> holds the values of \<open>i\<close> still to visit.\<close>

fun all_batches :: "sampler \<Rightarrow> nat list list \<Rightarrow> nat list \<Rightarrow> error + nat list list" where
  "all_batches s indices [] = Inr []"
| "all_batches s indices (i # is) =
     (case bucket_batches s indices i of
        Inl e \<Rightarrow> Inl e
      | Inr bs \<Rightarrow>
         (case all_batches s indices is of
            Inl e \<Rightarrow> Inl e
          | Inr rest \<Rightarrow> Inr (bs @ rest)))"

subsection \<open>The method\<close>

text \<open>
  The statements up to the assignment of \<open>self.batches\<close>: the value of the local
  \<open>batches\<close>, or the exception raised on the way. The generator is seeded first,
  whether or not the sampler shuffles, so a seed the library refuses ends the call.
\<close>

definition epoch_batches :: "'g generator \<Rightarrow> sampler \<Rightarrow> error + nat list list" where
  "epoch_batches gen s =
     (case manual_seed gen (epoch s) of
        Inl e \<Rightarrow> Inl e
      | Inr g \<Rightarrow>
         (let (indices, g1) =
                (if shuffle s then shuffled_indices (randperm gen) (buckets s) g
                 else (identity_indices (buckets s), g))
          in case all_batches s indices [0..<length (buckets s)] of
               Inl e \<Rightarrow> Inl e
             | Inr bs \<Rightarrow>
                 if shuffle s
                 then (case randperm gen (length bs) g1 of
                         (batch_ids, g2) \<Rightarrow> gather bs batch_ids)
                 else Inr bs))"

text \<open>
  The result is what the call returns or raises, paired with the sampler it leaves:
  \<open>self.batches\<close> is assigned before the assertion, and is untouched when an earlier
  statement raises.
\<close>

definition iter :: "'g generator \<Rightarrow> sampler \<Rightarrow> (error + nat list list) \<times> sampler" where
  "iter gen s =
     (case epoch_batches gen s of
        Inl e \<Rightarrow> (Inl e, s)
      | Inr bs \<Rightarrow>
         (let s' = s\<lparr>batches := Some bs\<rparr>
          in if int (length bs) * batch_size s' = num_samples s' then (Inr bs, s')
             else (Inl AssertionError, s')))"

section \<open>\<open>TextAudioLoader.get_audio_text_pair\<close>\<close>

text \<open>
  A one-dimensional tensor is the list of its entries. A two-dimensional tensor carries
  its shape, so that \<open>size(0)\<close> and \<open>size(1)\<close> are defined also when one of them is \<open>0\<close>.
  Floating-point entries are only copied and compared with nothing, so their type is a
  parameter \<open>'a\<close> with a zero.
\<close>

record 'a tensor2 =
  dim0 :: nat
  dim1 :: nat
  elems :: "'a list list"

definition wf_tensor2 :: "'a tensor2 \<Rightarrow> bool" where
  "wf_tensor2 t = (length (elems t) = dim0 t \<and> list_all (\<lambda>r. length r = dim1 t) (elems t))"

text \<open>\<open>t[:, :k]\<close>\<close>

definition slice_cols :: "'a tensor2 \<Rightarrow> int \<Rightarrow> 'a tensor2" where
  "slice_cols t k =
     \<lparr> dim0 = dim0 t, dim1 = length (py_take (replicate (dim1 t) ()) k),
       elems = map (\<lambda>r. py_take r k) (elems t) \<rparr>"

text \<open>The tuple \<open>(text, tone, f0, spec, wav)\<close>.\<close>

type_synonym 'a sample = "int list \<times> int list \<times> 'a list \<times> 'a tensor2 \<times> 'a tensor2"

text \<open>The components \<open>x[0]\<close>, \<open>x[1]\<close>, \<open>x[2]\<close>, \<open>x[3]\<close> and \<open>x[4]\<close> of a sample \<open>x\<close>.\<close>

definition text_of :: "'a sample \<Rightarrow> int list" where
  "text_of x = (case x of (text, tone, f0, spec, wav) \<Rightarrow> text)"

definition tone_of :: "'a sample \<Rightarrow> int list" where
  "tone_of x = (case x of (text, tone, f0, spec, wav) \<Rightarrow> tone)"

definition f0_of :: "'a sample \<Rightarrow> 'a list" where
  "f0_of x = (case x of (text, tone, f0, spec, wav) \<Rightarrow> f0)"

definition spec_of :: "'a sample \<Rightarrow> 'a tensor2" where
  "spec_of x = (case x of (text, tone, f0, spec, wav) \<Rightarrow> spec)"

definition wav_of :: "'a sample \<Rightarrow> 'a tensor2" where
  "wav_of x = (case x of (text, tone, f0, spec, wav) \<Rightarrow> wav)"

text \<open>
  \<^verbatim>\<open>
  def get_audio_text_pair(self, audiopath_and_text):
      audiopath, text, tone = audiopath_and_text[0], audiopath_and_text[1], audiopath_and_text[2]
      text, tone = self.get_text_tone(text, tone)
      f0, spec, wav = self.get_audio(audiopath)
      len_text = text.size()[0]
      len_tone = tone.size()[0]
      len_spec = spec.size()[-1]
      assert len_text == len_tone
      if (len_text != len_spec):
          len_min = min(len_text, len_spec)
          # amor hop_size=256
          len_wav = len_min * 256
          text = text[:len_min]
          tone = tone[:len_min]
          f0 = f0[:len_min]
          spec = spec[:,:len_min]
          wav = wav[:,:len_wav]
      return (text, tone, f0, spec, wav)
  \<close>
  \<open>get_text_tone\<close> and \<open>get_audio\<close> read files; what they return is the argument of the
  model. The number of waveform samples per frame is the literal \<open>256\<close> of the source.
\<close>

definition samples_per_frame :: int where
  "samples_per_frame = 256"

definition get_audio_text_pair ::
  "int list \<Rightarrow> int list \<Rightarrow> 'a list \<Rightarrow> 'a tensor2 \<Rightarrow> 'a tensor2 \<Rightarrow> error + 'a sample" where
  "get_audio_text_pair text tone f0 spec wav =
     (let len_text = int (length text);
          len_tone = int (length tone);
          len_spec = int (dim1 spec)
      in if len_text \<noteq> len_tone then Inl AssertionError
         else if len_text \<noteq> len_spec then
           (let len_min = min len_text len_spec;
                len_wav = len_min * samples_per_frame
            in Inr (py_take text len_min, py_take tone len_min, py_take f0 len_min,
                    slice_cols spec len_min, slice_cols wav len_wav))
         else Inr (text, tone, f0, spec, wav))"

section \<open>\<open>TextAudioCollate.__call__\<close>\<close>

text \<open>
  \<^verbatim>\<open>
  def __call__(self, batch):
      _, ids_sorted_decreasing = torch.sort(
          torch.LongTensor([x[3].size(1) for x in batch]),
          dim=0, descending=True)

      max_text_len = max([len(x[0]) for x in batch])
      max_tone_len = max([len(x[1]) for x in batch])
      max_f0_len = max([len(x[2]) for x in batch])
      max_spec_len = max([x[3].size(1) for x in batch])
      max_wav_len = max([x[4].size(1) for x in batch])

      text_lengths = torch.LongTensor(len(batch))
      tone_lengths = torch.LongTensor(len(batch))
      f0_lengths = torch.LongTensor(len(batch))
      spec_lengths = torch.LongTensor(len(batch))
      wav_lengths = torch.LongTensor(len(batch))

      text_padded = torch.LongTensor(len(batch), max_text_len)
      tone_padded = torch.LongTensor(len(batch), max_tone_len)
      f0_padded = torch.FloatTensor(len(batch), max_f0_len)
      spec_padded = torch.FloatTensor(len(batch), batch[0][3].size(0), max_spec_len)
      wav_padded = torch.FloatTensor(len(batch), 1, max_wav_len)
      text_padded.zero_()
      tone_padded.zero_()
      f0_padded.zero_()
      spec_padded.zero_()
      wav_padded.zero_()
      for i in range(len(ids_sorted_decreasing)):
          row = batch[ids_sorted_decreasing[i]]

          text = row[0]
          text_padded[i, :text.size(0)] = text
          text_lengths[i] = text.size(0)

          tone = row[1]
          tone_padded[i, :tone.size(0)] = tone
          tone_lengths[i] = tone.size(0)

          f0 = row[2]
          f0_padded[i, :f0.size(0)] = f0
          f0_lengths[i] = f0.size(0)

          spec = row[3]
          spec_padded[i, :, :spec.size(1)] = spec
          spec_lengths[i] = spec.size(1)

          wav = row[4]
          wav_padded[i, :, :wav.size(1)] = wav
          wav_lengths[i] = wav.size(1)

      if self.return_ids:
          return text_padded, text_lengths, ..., wav_padded, wav_lengths, ids_sorted_decreasing
      return text_padded, text_lengths, ..., wav_padded, wav_lengths
  \<close>
  \<open>torch.sort\<close> is the library's: the model takes as a parameter the function that gives
  the indices of a descending sort. The padded tensors are lists of rows; the
  three-dimensional ones are lists of two-dimensional tensors. The length tensors are
  allocated without initialisation and each entry is assigned in the loop; before its
  assignment an entry is modelled as \<open>0\<close>.
\<close>

record 'a collated =
  text_padded :: "int list list"
  text_lengths :: "int list"
  tone_padded :: "int list list"
  tone_lengths :: "int list"
  f0_padded :: "'a list list"
  f0_lengths :: "int list"
  spec_padded :: "'a tensor2 list"
  spec_lengths :: "int list"
  wav_padded :: "'a tensor2 list"
  wav_lengths :: "int list"
  ids_sorted_decreasing :: "nat list option"

text \<open>\<open>max(xs)\<close>: raises on the empty list.\<close>

definition py_max :: "int list \<Rightarrow> error + int" where
  "py_max xs = (case xs of [] \<Rightarrow> Inl ValueError | x # rest \<Rightarrow> Inr (fold max rest x))"

text \<open>\<open>row[:len(v)] = v\<close>: the shapes must agree, so \<open>v\<close> may not be longer than the row.\<close>

definition write_prefix :: "'a list \<Rightarrow> 'a list \<Rightarrow> error + 'a list" where
  "write_prefix row v =
     (if length v \<le> length row then Inr (v @ drop (length v) row) else Inl RuntimeError)"

text \<open>\<open>padded[i, :v.size(0)] = v\<close>\<close>

definition set_row1 :: "'a list list \<Rightarrow> nat \<Rightarrow> 'a list \<Rightarrow> error + 'a list list" where
  "set_row1 padded i v =
     (if i < length padded then
        (case write_prefix (padded ! i) v of
           Inl e \<Rightarrow> Inl e
         | Inr row \<Rightarrow> Inr (padded[i := row]))
      else Inl IndexError)"

text \<open>\<open>lengths[i] = n\<close>\<close>

definition set_len :: "int list \<Rightarrow> nat \<Rightarrow> int \<Rightarrow> error + int list" where
  "set_len lens i n = (if i < length lens then Inr (lens[i := n]) else Inl IndexError)"

text \<open>
  \<open>padded[i, :, :t.size(1)] = t\<close>: the first dimension of \<open>t\<close> must be that of the target,
  or \<open>1\<close>, in which case the single row is broadcast.
\<close>

definition set_row2 :: "'a tensor2 list \<Rightarrow> nat \<Rightarrow> 'a tensor2 \<Rightarrow> error + 'a tensor2 list" where
  "set_row2 padded i t =
     (if i < length padded then
        (let old = padded ! i in
         if dim1 t \<le> dim1 old \<and> (dim0 t = dim0 old \<or> dim0 t = 1) then
           Inr (padded[i := \<lparr> dim0 = dim0 old, dim1 = dim1 old,
                  elems = map2 (\<lambda>src dst. src @ drop (length src) dst)
                            (if dim0 t = dim0 old then elems t
                             else replicate (dim0 old) (hd (elems t)))
                            (elems old) \<rparr>])
         else Inl RuntimeError)
      else Inl IndexError)"

text \<open>Sequencing of statements that may raise: the first exception ends the run.\<close>

definition and_then :: "error + 'a \<Rightarrow> ('a \<Rightarrow> error + 'b) \<Rightarrow> error + 'b" where
  "and_then m f = (case m of Inl e \<Rightarrow> Inl e | Inr x \<Rightarrow> f x)"

text \<open>The body of the loop, for the sample \<open>row\<close> written at position \<open>i\<close>.\<close>

definition collate_row :: "'a sample \<Rightarrow> nat \<Rightarrow> 'a collated \<Rightarrow> error + 'a collated" where
  "collate_row row i st =
     and_then (set_row1 (text_padded st) i (text_of row)) (\<lambda>tp.
     and_then (set_len (text_lengths st) i (int (length (text_of row)))) (\<lambda>tl.
     and_then (set_row1 (tone_padded st) i (tone_of row)) (\<lambda>np.
     and_then (set_len (tone_lengths st) i (int (length (tone_of row)))) (\<lambda>nl.
     and_then (set_row1 (f0_padded st) i (f0_of row)) (\<lambda>fp.
     and_then (set_len (f0_lengths st) i (int (length (f0_of row)))) (\<lambda>fl.
     and_then (set_row2 (spec_padded st) i (spec_of row)) (\<lambda>sp.
     and_then (set_len (spec_lengths st) i (int (dim1 (spec_of row)))) (\<lambda>sl.
     and_then (set_row2 (wav_padded st) i (wav_of row)) (\<lambda>wp.
     and_then (set_len (wav_lengths st) i (int (dim1 (wav_of row)))) (\<lambda>wl.
       Inr (st\<lparr> text_padded := tp, text_lengths := tl, tone_padded := np,
                 tone_lengths := nl, f0_padded := fp, f0_lengths := fl,
                 spec_padded := sp, spec_lengths := sl, wav_padded := wp,
                 wav_lengths := wl \<rparr>)))))))))))"

text \<open>The loop; \<open>is\<close> holds the values of \<open>i\<close> still to visit.\<close>

fun collate_loop ::
  "'a sample list \<Rightarrow> nat list \<Rightarrow> nat list \<Rightarrow> 'a collated \<Rightarrow> error + 'a collated" where
  "collate_loop batch ids [] st = Inr st"
| "collate_loop batch ids (i # is) st =
     (case py_index ids (int i) of
        Inl e \<Rightarrow> Inl e
      | Inr k \<Rightarrow>
         (case py_index batch (int k) of
            Inl e \<Rightarrow> Inl e
          | Inr row \<Rightarrow>
             (case collate_row row i st of
                Inl e \<Rightarrow> Inl e
              | Inr st' \<Rightarrow> collate_loop batch ids is st')))"

definition zeros2 :: "nat \<Rightarrow> nat \<Rightarrow> ('a::zero) tensor2" where
  "zeros2 m n = \<lparr> dim0 = m, dim1 = n, elems = replicate m (replicate n 0) \<rparr>"

definition collate ::
  "(int list \<Rightarrow> nat list) \<Rightarrow> bool \<Rightarrow> ('a::zero) sample list \<Rightarrow> error + 'a collated" where
  "collate sort_descending return_ids batch =
     (let ids = sort_descending (map (\<lambda>x. int (dim1 (spec_of x))) batch) in
      and_then (py_max (map (\<lambda>x. int (length (text_of x))) batch)) (\<lambda>max_text_len.
      and_then (py_max (map (\<lambda>x. int (length (tone_of x))) batch)) (\<lambda>max_tone_len.
      and_then (py_max (map (\<lambda>x. int (length (f0_of x))) batch)) (\<lambda>max_f0_len.
      and_then (py_max (map (\<lambda>x. int (dim1 (spec_of x))) batch)) (\<lambda>max_spec_len.
      and_then (py_max (map (\<lambda>x. int (dim1 (wav_of x))) batch)) (\<lambda>max_wav_len.
      and_then (py_index batch 0) (\<lambda>first.
      (let n = length batch;
           st = \<lparr> text_padded = replicate n (replicate (nat max_text_len) 0),
                  text_lengths = replicate n 0,
                  tone_padded = replicate n (replicate (nat max_tone_len) 0),
                  tone_lengths = replicate n 0,
                  f0_padded = replicate n (replicate (nat max_f0_len) 0),
                  f0_lengths = replicate n 0,
                  spec_padded = replicate n (zeros2 (dim0 (spec_of first)) (nat max_spec_len)),
                  spec_lengths = replicate n 0,
                  wav_padded = replicate n (zeros2 1 (nat max_wav_len)),
                  wav_lengths = replicate n 0,
                  ids_sorted_decreasing = None \<rparr>
       in and_then (collate_loop batch ids [0..<length ids] st)
            (\<lambda>out. Inr (if return_ids then out\<lparr>ids_sorted_decreasing := Some ids\<rparr>
                           else out))))))))))"

text \<open>
  What the library promises of the indices \<open>torch.sort(..., descending=True)\<close> returns: a
  permutation of the positions that lists the values in descending order. The order of
  equal values is not promised.
\<close>

definition valid_sort_descending :: "(int list \<Rightarrow> nat list) \<Rightarrow> bool" where
  "valid_sort_descending srt =
     (\<forall>xs. distinct (srt xs) \<and> set (srt xs) = {0..<length xs}
           \<and> sorted (rev (map ((!) xs) (srt xs))))"

text \<open>
  The shapes of a sample the collator is given: \<open>spec\<close> is \<open>[feature_dim, time]\<close> and
  \<open>wav\<close> is \<open>[1, samples]\<close>, each with as many rows, of as many entries, as its shape says.
\<close>

definition wf_sample :: "nat \<Rightarrow> 'a sample \<Rightarrow> bool" where
  "wf_sample feature_dim x =
     (wf_tensor2 (spec_of x) \<and> dim0 (spec_of x) = feature_dim
      \<and> wf_tensor2 (wav_of x) \<and> dim0 (wav_of x) = 1)"

text \<open>Zero-padding of a list, and of every row of a two-dimensional tensor, to \<open>m\<close> entries.\<close>

definition pad_to :: "nat \<Rightarrow> ('a::zero) list \<Rightarrow> 'a list" where
  "pad_to m v = v @ replicate (m - length v) 0"

definition pad_cols_to :: "nat \<Rightarrow> ('a::zero) tensor2 \<Rightarrow> 'a tensor2" where
  "pad_cols_to m t = \<lparr> dim0 = dim0 t, dim1 = m, elems = map (pad_to m) (elems t) \<rparr>"

section \<open>Concrete inputs for the examples\<close>

text \<open>
  A stand-in for the library's generator, used only to run the model on concrete inputs:
  it refuses a seed out of range with \<open>RuntimeError\<close>, as the library documents, its
  state counts the draws since the seed, and the permutation it draws is the rotation of
  \<open>0..n-1\<close> by that count.
\<close>

definition example_generator :: "nat generator" where
  "example_generator =
     \<lparr> manual_seed = (\<lambda>e. if seed_in_range e then Inr (nat \<bar>e\<bar>) else Inl RuntimeError),
       randperm = (\<lambda>n g. (rotate g [0..<n], Suc g)) \<rparr>"

text \<open>
  The sampler \<open>__init__\<close> builds from five samples of lengths \<open>15, 12, 18, 5, 25\<close>,
  boundaries \<open>[0, 10, 20, 30]\<close>, batches of one and two replicas, as replica \<open>0\<close>.
\<close>

definition example_sampler :: "bool \<Rightarrow> sampler" where
  "example_sampler shuf =
     \<lparr> lengths = [15, 12, 18, 5, 25], batch_size = 1, boundaries = [0, 10, 20, 30],
       num_replicas = 2, rank = 0, shuffle = shuf, epoch = 0,
       buckets = [[3], [0, 1, 2], [4]], num_samples_per_bucket = [2, 4, 2],
       total_size = 8, num_samples = 4, batches = None \<rparr>"

text \<open>
  A stand-in for the library's sort, used only to run the collator on concrete inputs:
  the positions, by descending value.
\<close>

definition example_sort_descending :: "int list \<Rightarrow> nat list" where
  "example_sort_descending xs = rev (map snd (sort_key fst (zip xs [0..<length xs])))"

text \<open>
  A sample of \<open>k\<close> frames with 2 spectral features and 2 waveform samples per frame, and
  the batch of three such samples with 5, 3 and 7 frames.
\<close>

definition example_sample :: "nat \<Rightarrow> int sample" where
  "example_sample k =
     (replicate k 1, replicate k 2, replicate k 3,
      \<lparr> dim0 = 2, dim1 = k, elems = replicate 2 (replicate k 4) \<rparr>,
      \<lparr> dim0 = 1, dim1 = 2 * k, elems = replicate 1 (replicate (2 * k) 5) \<rparr>)"

definition example_batch :: "int sample list" where
  "example_batch = [example_sample 5, example_sample 3, example_sample 7]"

section \<open>Properties of the interval search\<close>

declare bisect.simps [simp del]

lemma py_index_in_range:
  "0 \<le> i \<Longrightarrow> i < int (length xs) \<Longrightarrow> py_index xs i = Inr (xs ! nat i)"
  by (simp add: py_index_def)

lemma bisect_empty_interval:
  "hi_default bs hi \<le> lo \<Longrightarrow> bisect bs x lo hi = Inr (- 1)"
  by (subst bisect.simps) simp

lemma bisect_step:
  assumes "lo < hi_default bs hi" "0 \<le> lo" "hi_default bs hi < int (length bs)"
  defines "mid \<equiv> (hi_default bs hi + lo) div 2"
  shows "bisect bs x lo hi =
     (if bs ! nat mid < x \<and> x \<le> bs ! nat (mid + 1) then Inr mid
      else if x \<le> bs ! nat mid then bisect bs x lo (Some mid)
      else bisect bs x (mid + 1) (Some (hi_default bs hi)))"
proof -
  have "0 \<le> mid" "mid + 1 < int (length bs)"
    using assms by auto
  then have "py_index bs mid = Inr (bs ! nat mid)"
    "py_index bs (mid + 1) = Inr (bs ! nat (mid + 1))"
    by (simp_all add: py_index_in_range)
  then show ?thesis
    using assms(1) by (subst bisect.simps) (simp add: mid_def Let_def)
qed

lemma bisect_sound:
  "0 \<le> lo \<Longrightarrow> hi_default bs hi < int (length bs) \<Longrightarrow>
   \<exists>r. bisect bs x lo hi = Inr r \<and>
       (r = - 1 \<or> (lo \<le> r \<and> r < hi_default bs hi \<and> bs ! nat r < x \<and> x \<le> bs ! nat (r + 1)))"
proof (induction "nat (hi_default bs hi - lo)" arbitrary: lo hi rule: less_induct)
  case less
  define h where "h = hi_default bs hi"
  define mid where "mid = (h + lo) div 2"
  show ?case
  proof (cases "lo < h")
    case False
    then show ?thesis by (simp add: bisect_empty_interval h_def)
  next
    case True
    have mid: "lo \<le> mid" "mid < h" "0 \<le> mid"
      using True less.prems by (auto simp: mid_def h_def)
    note step = bisect_step[OF True[unfolded h_def] less.prems, of x, folded h_def, folded mid_def]
    have left: "\<exists>r. bisect bs x lo (Some mid) = Inr r \<and>
          (r = - 1 \<or> (lo \<le> r \<and> r < mid \<and> bs ! nat r < x \<and> x \<le> bs ! nat (r + 1)))"
      using less.hyps[of "Some mid" lo] less.prems mid True
      by (simp add: hi_default_def h_def)
    have right: "\<exists>r. bisect bs x (mid + 1) (Some h) = Inr r \<and>
          (r = - 1 \<or> (mid + 1 \<le> r \<and> r < h \<and> bs ! nat r < x \<and> x \<le> bs ! nat (r + 1)))"
      using less.hyps[of "Some h" "mid + 1"] less.prems mid True
      by (simp add: hi_default_def h_def)
    show ?thesis
      unfolding step h_def[symmetric] using left right mid by auto
  qed
qed

lemma sorted_nth_int_mono:
  "sorted (bs :: int list) \<Longrightarrow> 0 \<le> i \<Longrightarrow> i \<le> j \<Longrightarrow> j < int (length bs) \<Longrightarrow> bs ! nat i \<le> bs ! nat j"
  by (simp add: sorted_nth_mono)

lemma bisect_complete:
  "sorted bs \<Longrightarrow> 0 \<le> lo \<Longrightarrow> hi_default bs hi < int (length bs) \<Longrightarrow>
   lo \<le> i \<Longrightarrow> i < hi_default bs hi \<Longrightarrow> bs ! nat i < x \<Longrightarrow> x \<le> bs ! nat (i + 1) \<Longrightarrow>
   bisect bs x lo hi = Inr i"
proof (induction "nat (hi_default bs hi - lo)" arbitrary: lo hi rule: less_induct)
  case less
  define h where "h = hi_default bs hi"
  define mid where "mid = (h + lo) div 2"
  have lt: "lo < h" using less.prems by (simp add: h_def)
  have mid: "lo \<le> mid" "mid < h" "0 \<le> mid"
    using lt less.prems by (auto simp: mid_def h_def)
  note step = bisect_step[OF lt[unfolded h_def] less.prems(2,3), of x, folded h_def, folded mid_def]
  consider (hit) "bs ! nat mid < x" "x \<le> bs ! nat (mid + 1)"
    | (left) "x \<le> bs ! nat mid"
    | (right) "bs ! nat mid < x" "\<not> x \<le> bs ! nat (mid + 1)"
    by linarith
  then show ?case
  proof cases
    case hit
    have "\<not> i < mid"
    proof
      assume "i < mid"
      then have "bs ! nat (i + 1) \<le> bs ! nat mid"
        using less.prems mid by (intro sorted_nth_int_mono) (auto simp: h_def)
      then show False using hit less.prems by linarith
    qed
    moreover have "\<not> mid < i"
    proof
      assume "mid < i"
      then have "bs ! nat (mid + 1) \<le> bs ! nat i"
        using less.prems mid by (intro sorted_nth_int_mono) (auto simp: h_def)
      then show False using hit less.prems by linarith
    qed
    ultimately have "i = mid" by linarith
    then show ?thesis using hit by (simp add: step)
  next
    case left
    have "i < mid"
    proof (rule ccontr)
      assume "\<not> i < mid"
      then have "bs ! nat mid \<le> bs ! nat i"
        using less.prems mid by (intro sorted_nth_int_mono) (auto simp: h_def)
      then show False using left less.prems by linarith
    qed
    then have "bisect bs x lo (Some mid) = Inr i"
      using less.hyps[of "Some mid" lo] less.prems mid lt
      by (simp add: hi_default_def h_def)
    then show ?thesis using left by (simp add: step)
  next
    case right
    have "mid < i"
    proof (rule ccontr)
      assume "\<not> mid < i"
      then have "bs ! nat (i + 1) \<le> bs ! nat (mid + 1)"
        using less.prems mid by (intro sorted_nth_int_mono) (auto simp: h_def)
      then show False using right less.prems by linarith
    qed
    then have "bisect bs x (mid + 1) (Some h) = Inr i"
      using less.hyps[of "Some h" "mid + 1"] less.prems mid lt
      by (simp add: hi_default_def h_def)
    then show ?thesis using right by (simp add: step)
  qed
qed

lemma interval_exists:
  assumes "sorted (bs :: int list)" "bs ! 0 < x" "x \<le> last bs" "bs \<noteq> []"
  shows "\<exists>i. i + 1 < length bs \<and> bs ! i < x \<and> x \<le> bs ! (i + 1)"
proof -
  define j where "j = (LEAST j. j < length bs \<and> x \<le> bs ! j)"
  have ex: "length bs - 1 < length bs \<and> x \<le> bs ! (length bs - 1)"
    using assms by (simp add: last_conv_nth)
  have j: "j < length bs" "x \<le> bs ! j"
    using LeastI[of "\<lambda>j. j < length bs \<and> x \<le> bs ! j", OF ex] by (simp_all add: j_def)
  have "j \<noteq> 0"
  proof
    assume "j = 0"
    then have "x \<le> bs ! 0" using j(2) by simp
    then show False using assms(2) by simp
  qed
  then obtain i where i: "j = Suc i" by (cases j) auto
  have "\<not> (i < length bs \<and> x \<le> bs ! i)"
    using not_less_Least[of i "\<lambda>j. j < length bs \<and> x \<le> bs ! j"] i by (simp add: j_def)
  then have "bs ! i < x" using j i by auto
  then show ?thesis using j i by auto
qed

text \<open>
  Claim C4. For an ascending boundary list with at least two entries and any length
  \<open>x\<close>, the search returns the index \<open>i\<close> exactly when
  \<open>boundaries[i] < x \<le> boundaries[i+1]\<close>, it returns the sentinel \<open>-1\<close> exactly when
  \<open>x \<le> boundaries[0]\<close> or \<open>x > boundaries[-1]\<close>, and it never raises: its result is the
  sentinel or the index of a bucket. Ascending is meant weakly, so repeated boundaries
  are covered.
\<close>

theorem bisect_finds_interval:
  assumes "sorted bnds" "2 \<le> length bnds"
  shows "(bisect bnds x 0 None = Inr (int i) \<longleftrightarrow>
            i + 1 < length bnds \<and> bnds ! i < x \<and> x \<le> bnds ! (i + 1))
       \<and> (bisect bnds x 0 None = Inr (- 1) \<longleftrightarrow> x \<le> bnds ! 0 \<or> last bnds < x)
       \<and> (\<exists>r. bisect bnds x 0 None = Inr r \<and> - 1 \<le> r \<and> r < int (length bnds) - 1)"
proof -
  have hi: "hi_default bnds None = int (length bnds) - 1"
    by (simp add: hi_default_def)
  have hi_lt: "hi_default bnds None < int (length bnds)"
    by (simp add: hi)
  obtain r where r: "bisect bnds x 0 None = Inr r"
    and r_cases: "r = - 1 \<or> (0 \<le> r \<and> r < int (length bnds) - 1 \<and> bnds ! nat r < x \<and> x \<le> bnds ! nat (r + 1))"
    using bisect_sound[of 0 bnds None x] hi_lt by (auto simp: hi)
  have complete: "bisect bnds x 0 None = Inr (int k)"
    if "k + 1 < length bnds" "bnds ! k < x" "x \<le> bnds ! (k + 1)" for k
    using bisect_complete[OF assms(1) _ hi_lt, of 0 "int k" x] that
    by (simp add: hi nat_add_distrib)
  have first: "bisect bnds x 0 None = Inr (int i) \<longleftrightarrow>
            i + 1 < length bnds \<and> bnds ! i < x \<and> x \<le> bnds ! (i + 1)"
  proof
    assume "bisect bnds x 0 None = Inr (int i)"
    then have "r = int i" using r by simp
    then show "i + 1 < length bnds \<and> bnds ! i < x \<and> x \<le> bnds ! (i + 1)"
      using r_cases by (auto simp: nat_add_distrib)
  next
    assume "i + 1 < length bnds \<and> bnds ! i < x \<and> x \<le> bnds ! (i + 1)"
    then show "bisect bnds x 0 None = Inr (int i)" using complete by blast
  qed
  have second: "bisect bnds x 0 None = Inr (- 1) \<longleftrightarrow> x \<le> bnds ! 0 \<or> last bnds < x"
  proof
    assume m: "bisect bnds x 0 None = Inr (- 1)"
    show "x \<le> bnds ! 0 \<or> last bnds < x"
    proof (rule ccontr)
      assume "\<not> (x \<le> bnds ! 0 \<or> last bnds < x)"
      then have "bnds ! 0 < x" "x \<le> last bnds" by simp_all
      moreover have "bnds \<noteq> []" using assms(2) by auto
      ultimately obtain k where "k + 1 < length bnds" "bnds ! k < x" "x \<le> bnds ! (k + 1)"
        using interval_exists[OF assms(1), of x] by blast
      then have "bisect bnds x 0 None = Inr (int k)" by (rule complete)
      then show False using m by simp
    qed
  next
    assume out: "x \<le> bnds ! 0 \<or> last bnds < x"
    have "r = - 1"
    proof (rule ccontr)
      assume "r \<noteq> - 1"
      then have in_r: "0 \<le> r" "r < int (length bnds) - 1" "bnds ! nat r < x" "x \<le> bnds ! nat (r + 1)"
        using r_cases by auto
      have "bnds ! 0 \<le> bnds ! nat r"
        using assms(1) in_r by (intro sorted_nth_mono) auto
      moreover have "bnds ! nat (r + 1) \<le> bnds ! (length bnds - 1)"
        using assms(1) in_r by (intro sorted_nth_mono) auto
      moreover have "last bnds = bnds ! (length bnds - 1)"
        using assms(2) by (intro last_conv_nth) auto
      ultimately show False using out in_r by linarith
    qed
    then show "bisect bnds x 0 None = Inr (- 1)" using r by simp
  qed
  have third: "\<exists>r. bisect bnds x 0 None = Inr r \<and> - 1 \<le> r \<and> r < int (length bnds) - 1"
    using r r_cases assms(2) by auto
  show ?thesis using first second third by blast
qed

text \<open>The theorem at the boundaries \<open>[0, 10, 20, 30]\<close>, inside, on and outside them.\<close>

theorem bisect_finds_interval_witness:
  "sorted [0, 10, 20, 30 :: int] \<and> 2 \<le> length [0, 10, 20, 30 :: int]
   \<and> bisect [0, 10, 20, 30] 15 0 None = Inr 1
   \<and> bisect [0, 10, 20, 30] 20 0 None = Inr 1
   \<and> bisect [0, 10, 20, 30] 0 0 None = Inr (- 1)
   \<and> bisect [0, 10, 20, 30] 31 0 None = Inr (- 1)"
proof -
  have s: "sorted [0, 10, 20, 30 :: int]" and l: "2 \<le> length [0, 10, 20, 30 :: int]"
    by simp_all
  show ?thesis
    using s l bisect_finds_interval[OF s l, of 15 1] bisect_finds_interval[OF s l, of 20 1]
      bisect_finds_interval[OF s l, of 0 0] bisect_finds_interval[OF s l, of 31 0]
    by simp
qed


text \<open>
  Claim C9. The recursive search terminates for every \<open>x\<close> and every pair of bounds:
  each recursive call is on a strictly smaller interval \<open>hi - lo\<close>, so a search that may
  make more than \<open>hi - lo\<close> calls returns, and returns what the total function \<open>bisect\<close>
  (defined by well-founded recursion on \<open>hi - lo\<close>) returns.
\<close>

theorem bisect_terminates:
  "nat (hi_default bnds hi - lo) < fuel \<Longrightarrow>
   bisect_fuel fuel bnds x lo hi = Some (bisect bnds x lo hi)"
proof (induction fuel arbitrary: lo hi)
  case 0
  then show ?case by simp
next
  case (Suc fuel)
  define h where "h = hi_default bnds hi"
  define mid where "mid = (h + lo) div 2"
  show ?case
  proof (cases "lo < h")
    case False
    then show ?thesis
      by (subst bisect.simps) (simp add: h_def)
  next
    case True
    have l: "bisect_fuel fuel bnds x lo (Some mid) = Some (bisect bnds x lo (Some mid))"
      using Suc.prems True by (intro Suc.IH) (auto simp: hi_default_def h_def mid_def)
    have r: "bisect_fuel fuel bnds x (mid + 1) (Some h) = Some (bisect bnds x (mid + 1) (Some h))"
      using Suc.prems True by (intro Suc.IH) (auto simp: hi_default_def h_def mid_def)
    show ?thesis
      using True l r
      by (subst bisect.simps)
         (simp add: h_def[symmetric] mid_def[symmetric] Let_def split: sum.splits bool.splits)
  qed
qed

text \<open>Four calls are enough on four boundaries.\<close>

theorem bisect_terminates_witness:
  "nat (hi_default [0, 10, 20, 30] None - 0) < 4
   \<and> bisect_fuel 4 [0, 10, 20, 30] 15 0 None = Some (Inr 1)"
  using bisect_terminates[of "[0, 10, 20, 30]" None 0 4 15]
  by (simp add: hi_default_def bisect.simps py_index_def)


section \<open>Properties of bucket construction\<close>

lemma count_samples_Inr:
  "count_samples R B bkts = Inr counts \<longleftrightarrow>
     (bkts = [] \<or> R * B \<noteq> 0) \<and>
     counts = map (\<lambda>b. int (length b) + (R * B - int (length b) mod (R * B)) mod (R * B)) bkts"
proof (induction bkts arbitrary: counts)
  case Nil
  then show ?case by auto
next
  case (Cons b bkts)
  show ?case
  proof (cases "R * B = 0")
    case True
    then show ?thesis by (simp add: padded_count_def)
  next
    case False
    show ?thesis
    proof (cases "count_samples R B bkts")
      case (Inl e)
      then show ?thesis
        using False Cons.IH by (auto simp: padded_count_def Let_def)
    next
      case (Inr cs)
      then show ?thesis
        using False Cons.IH[of cs] by (auto simp: padded_count_def Let_def)
    qed
  qed
qed

lemma create_buckets_counts:
  "create_buckets lens bnds R B = Inr (bkts, counts, bnds') \<Longrightarrow>
   count_samples R B bkts = Inr counts"
  by (auto simp: create_buckets_def split: sum.splits)

text \<open>
  Claim C5. When construction succeeds, there is one padded count per surviving bucket,
  and the count of bucket \<open>i\<close> is
  \<open>len(buckets[i]) + ((replicas*batch - len(buckets[i]) % (replicas*batch)) % (replicas*batch))\<close>;
  in particular it is \<open>len(buckets[i])\<close> when that is a multiple of \<open>replicas*batch\<close>.
\<close>

theorem padded_count_formula:
  assumes "create_buckets lens bnds R B = Inr (bkts, counts, bnds')" "i < length bkts"
  shows "length counts = length bkts
       \<and> counts ! i = int (length (bkts ! i))
                        + (R * B - int (length (bkts ! i)) mod (R * B)) mod (R * B)
       \<and> (int (length (bkts ! i)) mod (R * B) = 0 \<longrightarrow> counts ! i = int (length (bkts ! i)))"
proof -
  have "count_samples R B bkts = Inr counts"
    using assms(1) by (rule create_buckets_counts)
  then have "counts =
      map (\<lambda>b. int (length b) + (R * B - int (length b) mod (R * B)) mod (R * B)) bkts"
    by (simp add: count_samples_Inr)
  then show ?thesis using assms(2) by simp
qed

text \<open>
  Nine samples, two replicas, batches of two: the buckets hold 2, 4 and 1 samples and
  are padded to 4, 4 and 4; the second one needs no padding.
\<close>

theorem padded_count_formula_witness:
  "create_buckets [15, 12, 18, 5, 25, 40, 0, 10, 11] [0, 10, 20, 30] 2 2
     = Inr ([[3, 7], [0, 1, 2, 8], [4]], [4, 4, 4], [0, 10, 20, 30])
   \<and> (1::nat) < length [[3, 7], [0, 1, 2, 8], [4 :: nat]]
   \<and> int (length ([[3, 7], [0, 1, 2, 8], [4 :: nat]] ! 1)) mod (2 * 2) = 0
   \<and> [4, 4, 4 :: int] ! 1 = int (length ([[3, 7], [0, 1, 2, 8], [4 :: nat]] ! 1))
   \<and> [4, 4, 4 :: int] ! 0 = 2 + (2 * 2 - 2 mod (2 * 2)) mod (2 * 2)"
proof -
  have c: "create_buckets [15, 12, 18, 5, 25, 40, 0, 10, 11] [0, 10, 20, 30] 2 2
     = Inr ([[3, 7], [0, 1, 2, 8], [4]], [4, 4, 4], [0, 10, 20, 30])"
    by code_simp
  have i1: "(1::nat) < length [[3, 7], [0, 1, 2, 8], [4 :: nat]]"
    and i0: "(0::nat) < length [[3, 7], [0, 1, 2, 8], [4 :: nat]]"
    by simp_all
  show ?thesis
    using c i1 padded_count_formula[OF c i1] padded_count_formula[OF c i0] by simp
qed

text \<open>
  Claim C3, on the code. With boundaries \<open>[0, 10, 20, 30]\<close> and every length in
  \<open>(10, 20]\<close>, the pruning loop removes the empty last bucket and the boundary \<open>30\<close>, but
  it stops before index \<open>0\<close>: the empty first bucket stays, so two buckets are returned,
  with boundaries \<open>[0, 10, 20]\<close>. Iterating over the sampler built from them raises
  \<open>ZeroDivisionError\<close> at the empty bucket, with any generator that accepts the seed \<open>0\<close>
  (a generator that refuses it raises its own error first).
\<close>

theorem empty_first_bucket_survives:
  "create_buckets [15, 12, 18] [0, 10, 20, 30] 1 1 = Inr ([[], [0, 1, 2]], [0, 3], [0, 10, 20])
   \<and> init [15, 12, 18] 1 [0, 10, 20, 30] 1 0 False
       = Inr \<lparr> lengths = [15, 12, 18], batch_size = 1, boundaries = [0, 10, 20],
               num_replicas = 1, rank = 0, shuffle = False, epoch = 0,
               buckets = [[], [0, 1, 2]], num_samples_per_bucket = [0, 3],
               total_size = 3, num_samples = 3, batches = None \<rparr>
   \<and> fst (iter gen \<lparr> lengths = [15, 12, 18], batch_size = 1, boundaries = [0, 10, 20],
               num_replicas = 1, rank = 0, shuffle = False, epoch = 0,
               buckets = [[], [0, 1, 2]], num_samples_per_bucket = [0, 3],
               total_size = 3, num_samples = 3, batches = None \<rparr>)
       = (case manual_seed gen 0 of Inl e \<Rightarrow> Inl e | Inr g \<Rightarrow> Inl ZeroDivisionError)
   \<and> fst (iter example_generator
             \<lparr> lengths = [15, 12, 18], batch_size = 1, boundaries = [0, 10, 20],
               num_replicas = 1, rank = 0, shuffle = False, epoch = 0,
               buckets = [[], [0, 1, 2]], num_samples_per_bucket = [0, 3],
               total_size = 3, num_samples = 3, batches = None \<rparr>)
       = Inl ZeroDivisionError"
proof -
  have a: "create_buckets [15, 12, 18] [0, 10, 20, 30] 1 1
      = Inr ([[], [0, 1, 2]], [0, 3], [0, 10, 20])"
    by code_simp
  have b: "init [15, 12, 18] 1 [0, 10, 20, 30] 1 0 False
       = Inr \<lparr> lengths = [15, 12, 18], batch_size = 1, boundaries = [0, 10, 20],
               num_replicas = 1, rank = 0, shuffle = False, epoch = 0,
               buckets = [[], [0, 1, 2]], num_samples_per_bucket = [0, 3],
               total_size = 3, num_samples = 3, batches = None \<rparr>"
    by code_simp
  have c: "fst (iter gen \<lparr> lengths = [15, 12, 18], batch_size = 1, boundaries = [0, 10, 20],
               num_replicas = 1, rank = 0, shuffle = False, epoch = 0,
               buckets = [[], [0, 1, 2]], num_samples_per_bucket = [0, 3],
               total_size = 3, num_samples = 3, batches = None \<rparr>)
       = (case manual_seed gen 0 of Inl e \<Rightarrow> Inl e | Inr g \<Rightarrow> Inl ZeroDivisionError)"
    by (cases "manual_seed gen 0")
       (simp_all add: iter_def epoch_batches_def identity_indices_def bucket_batches_def
          py_index_def extend_ids_def)
  have d: "fst (iter example_generator
             \<lparr> lengths = [15, 12, 18], batch_size = 1, boundaries = [0, 10, 20],
               num_replicas = 1, rank = 0, shuffle = False, epoch = 0,
               buckets = [[], [0, 1, 2]], num_samples_per_bucket = [0, 3],
               total_size = 3, num_samples = 3, batches = None \<rparr>)
       = Inl ZeroDivisionError"
    by code_simp
  show ?thesis
    using a b c d by simp
qed

section \<open>Determinism of iteration\<close>

lemma bucket_batches_batches_irrelevant:
  "bucket_batches (s\<lparr>batches := b\<rparr>) indices i = bucket_batches s indices i"
  by (simp add: bucket_batches_def cong: sum.case_cong if_cong)

lemma all_batches_batches_irrelevant:
  "all_batches (s\<lparr>batches := b\<rparr>) indices is = all_batches s indices is"
  by (induction "is") (simp_all add: bucket_batches_batches_irrelevant cong: sum.case_cong)

lemma epoch_batches_batches_irrelevant:
  "epoch_batches gen (s\<lparr>batches := b\<rparr>) = epoch_batches gen s"
  by (simp add: epoch_batches_def Let_def all_batches_batches_irrelevant
           cong: if_cong prod.case_cong sum.case_cong)

lemma bucket_batches_epoch_irrelevant:
  "bucket_batches (s\<lparr>epoch := e\<rparr>) indices i = bucket_batches s indices i"
  by (simp add: bucket_batches_def cong: sum.case_cong if_cong)

lemma all_batches_epoch_irrelevant:
  "all_batches (s\<lparr>epoch := e\<rparr>) indices is = all_batches s indices is"
  by (induction "is") (simp_all add: bucket_batches_epoch_irrelevant cong: sum.case_cong)

lemma epoch_batches_seed_refused:
  "manual_seed gen (epoch s) = Inl err \<Longrightarrow> epoch_batches gen s = Inl err"
  by (simp add: epoch_batches_def)

lemma epoch_batches_unshuffled:
  "\<not> shuffle s \<Longrightarrow> manual_seed gen (epoch s) = Inr g \<Longrightarrow>
   epoch_batches gen s = all_batches s (identity_indices (buckets s)) [0..<length (buckets s)]"
  by (simp add: epoch_batches_def split: sum.splits)

lemma iter_seed_refused:
  "manual_seed gen (epoch s) = Inl err \<Longrightarrow> iter gen s = (Inl err, s)"
  by (simp add: iter_def epoch_batches_seed_refused)

lemma valid_manual_seed_accepts:
  "valid_manual_seed ms \<Longrightarrow> seed_in_range e \<Longrightarrow> \<exists>g. ms e = Inr g"
  unfolding valid_manual_seed_def by (drule spec[of _ e]) simp

lemma valid_manual_seed_refuses:
  "valid_manual_seed ms \<Longrightarrow> \<not> seed_in_range e \<Longrightarrow> \<exists>err. ms e = Inl err"
  unfolding valid_manual_seed_def by (drule spec[of _ e]) simp

lemma example_seed_valid: "valid_manual_seed (manual_seed example_generator)"
  by (simp add: valid_manual_seed_def example_generator_def)

text \<open>
  Claim C1. For a fixed configuration and a fixed epoch, two calls of \<open>__iter__\<close> give
  the same sequence of batches. A call changes nothing of the sampler but the cached
  \<open>batches\<close> (so the configuration and the epoch of the second call are those of the
  first); what a call returns does not depend on the cached \<open>batches\<close> (so two sampler
  objects with the same configuration and epoch return the same); and a second call on
  the sampler the first one leaves returns the same result and leaves the same sampler.
  The generator is a function of its seed, as the library's is.
\<close>

theorem iter_deterministic:
  "(\<exists>b. snd (iter gen s) = s\<lparr>batches := b\<rparr>)
   \<and> fst (iter gen (s\<lparr>batches := b'\<rparr>)) = fst (iter gen s)
   \<and> iter gen (snd (iter gen s)) = iter gen s"
proof (cases "epoch_batches gen s")
  case (Inl e)
  have "s = s\<lparr>batches := batches s\<rparr>" by simp
  then have "\<exists>b. s = s\<lparr>batches := b\<rparr>" by (rule exI)
  then show ?thesis
    using Inl by (simp add: iter_def epoch_batches_batches_irrelevant)
next
  case (Inr bs)
  then show ?thesis
    by (auto simp: iter_def Let_def epoch_batches_batches_irrelevant)
qed

text \<open>Epoch 1 of the shuffled example sampler, iterated twice.\<close>

theorem iter_deterministic_witness:
  "fst (iter example_generator (example_sampler True\<lparr>epoch := 1\<rparr>)) = Inr [[3], [2], [1], [4]]
   \<and> fst (iter example_generator (snd (iter example_generator (example_sampler True\<lparr>epoch := 1\<rparr>))))
       = Inr [[3], [2], [1], [4]]"
proof -
  have "fst (iter example_generator (example_sampler True\<lparr>epoch := 1\<rparr>)) = Inr [[3], [2], [1], [4]]"
    by code_simp
  then show ?thesis
    using iter_deterministic[of example_generator "example_sampler True\<lparr>epoch := 1\<rparr>"]
    by simp
qed

text \<open>
  Claim C10 as stated: without shuffling, what \<open>__iter__\<close> gives is the same for every
  two epoch values. It fails for an epoch the generator refuses as a seed: the generator
  is seeded from the epoch before the sampler looks at \<open>shuffle\<close>. The unshuffled example
  sampler returns its four batches at epoch \<open>0\<close> and raises at epoch \<open>2^64\<close>, one past
  the largest seed.
\<close>

theorem iter_unshuffled_epoch_counterexample:
  "\<not> shuffle (example_sampler False)
   \<and> fst (iter example_generator (example_sampler False\<lparr>epoch := 0\<rparr>)) = Inr [[3], [0], [2], [4]]
   \<and> fst (iter example_generator (example_sampler False\<lparr>epoch := 2 ^ 64\<rparr>)) = Inl RuntimeError
   \<and> fst (iter example_generator (example_sampler False\<lparr>epoch := 0\<rparr>))
       \<noteq> fst (iter example_generator (example_sampler False\<lparr>epoch := 2 ^ 64\<rparr>))"
proof -
  have u: "\<not> shuffle (example_sampler False)"
    by (simp add: example_sampler_def)
  have a: "fst (iter example_generator (example_sampler False\<lparr>epoch := 0\<rparr>)) = Inr [[3], [0], [2], [4]]"
    by code_simp
  have "\<not> seed_in_range (2 ^ 64)"
    by (simp add: seed_in_range_def)
  then have "manual_seed example_generator (epoch (example_sampler False\<lparr>epoch := 2 ^ 64\<rparr>))
      = Inl RuntimeError"
    by (simp add: example_generator_def)
  then have b: "fst (iter example_generator (example_sampler False\<lparr>epoch := 2 ^ 64\<rparr>)) = Inl RuntimeError"
    by (simp add: iter_seed_refused)
  show ?thesis
    using u a b by simp
qed

text \<open>
  Claim C10, amended. Without shuffling, and with a generator that accepts exactly the
  seeds from \<open>-2^63\<close> to \<open>2^64 - 1\<close>: for every two epoch values in that range
  \<open>__iter__\<close> gives the same (the buckets are traversed in identity order and the
  batches are not permuted); for an epoch outside the range it raises the generator's
  error and leaves the sampler as it was. Whatever the two epochs, two batch sequences
  that are returned are equal.
\<close>

theorem iter_unshuffled_epoch_independent:
  assumes "\<not> shuffle s" "valid_manual_seed (manual_seed gen)"
  shows "(seed_in_range e1 \<and> seed_in_range e2 \<longrightarrow>
            fst (iter gen (s\<lparr>epoch := e1\<rparr>)) = fst (iter gen (s\<lparr>epoch := e2\<rparr>)))
       \<and> (\<not> seed_in_range e1 \<longrightarrow>
            (\<exists>err. manual_seed gen e1 = Inl err
                   \<and> iter gen (s\<lparr>epoch := e1\<rparr>) = (Inl err, s\<lparr>epoch := e1\<rparr>)))
       \<and> (\<forall>bs1 bs2. fst (iter gen (s\<lparr>epoch := e1\<rparr>)) = Inr bs1
                    \<and> fst (iter gen (s\<lparr>epoch := e2\<rparr>)) = Inr bs2 \<longrightarrow> bs1 = bs2)"
proof -
  have accepted: "fst (iter gen (s\<lparr>epoch := e\<rparr>)) = fst (iter gen (s\<lparr>epoch := e'\<rparr>))"
    if "manual_seed gen e = Inr g" "manual_seed gen e' = Inr g'" for e e' g g'
  proof -
    have "epoch_batches gen (s\<lparr>epoch := e\<rparr>) = epoch_batches gen (s\<lparr>epoch := e'\<rparr>)"
      using assms(1) that
      by (simp add: epoch_batches_unshuffled[where g = g] epoch_batches_unshuffled[where g = g']
            all_batches_epoch_irrelevant)
    then show ?thesis
      by (simp add: iter_def Let_def split: sum.splits)
  qed
  have in_range: "fst (iter gen (s\<lparr>epoch := e1\<rparr>)) = fst (iter gen (s\<lparr>epoch := e2\<rparr>))"
    if r1: "seed_in_range e1" and r2: "seed_in_range e2"
  proof -
    obtain g1 g2 where "manual_seed gen e1 = Inr g1" "manual_seed gen e2 = Inr g2"
      using valid_manual_seed_accepts[OF assms(2) r1]
        valid_manual_seed_accepts[OF assms(2) r2] by blast
    then show ?thesis by (rule accepted)
  qed
  have refused: "\<exists>err. manual_seed gen e1 = Inl err
                   \<and> iter gen (s\<lparr>epoch := e1\<rparr>) = (Inl err, s\<lparr>epoch := e1\<rparr>)"
    if out: "\<not> seed_in_range e1"
  proof -
    obtain err where err: "manual_seed gen e1 = Inl err"
      using valid_manual_seed_refuses[OF assms(2) out] by blast
    then have "iter gen (s\<lparr>epoch := e1\<rparr>) = (Inl err, s\<lparr>epoch := e1\<rparr>)"
      by (intro iter_seed_refused) simp
    then show ?thesis using err by blast
  qed
  have returned: "bs1 = bs2"
    if r: "fst (iter gen (s\<lparr>epoch := e1\<rparr>)) = Inr bs1" "fst (iter gen (s\<lparr>epoch := e2\<rparr>)) = Inr bs2"
    for bs1 bs2
  proof -
    have ok: "\<exists>g. manual_seed gen e = Inr g"
      if ret: "fst (iter gen (s\<lparr>epoch := e\<rparr>)) = Inr bs" for e bs
    proof (cases "manual_seed gen e")
      case (Inl err)
      then have "iter gen (s\<lparr>epoch := e\<rparr>) = (Inl err, s\<lparr>epoch := e\<rparr>)"
        by (intro iter_seed_refused) simp
      then show ?thesis using ret by simp
    next
      case (Inr g)
      then show ?thesis by blast
    qed
    obtain g1 g2 where "manual_seed gen e1 = Inr g1" "manual_seed gen e2 = Inr g2"
      using ok[OF r(1)] ok[OF r(2)] by blast
    then have "fst (iter gen (s\<lparr>epoch := e1\<rparr>)) = fst (iter gen (s\<lparr>epoch := e2\<rparr>))"
      by (rule accepted)
    then show ?thesis using r by simp
  qed
  show ?thesis
    using in_range refused returned by blast
qed

text \<open>
  Epochs 0 and 7 of the unshuffled example sampler give the same four batches; epoch
  \<open>2^64\<close> is refused.
\<close>

theorem iter_unshuffled_epoch_independent_witness:
  "\<not> shuffle (example_sampler False) \<and> valid_manual_seed (manual_seed example_generator)
   \<and> seed_in_range 0 \<and> seed_in_range 7
   \<and> fst (iter example_generator (example_sampler False\<lparr>epoch := 0\<rparr>)) = Inr [[3], [0], [2], [4]]
   \<and> fst (iter example_generator (example_sampler False\<lparr>epoch := 7\<rparr>)) = Inr [[3], [0], [2], [4]]"
proof -
  have u: "\<not> shuffle (example_sampler False)"
    by (simp add: example_sampler_def)
  have r: "seed_in_range 0" "seed_in_range 7"
    by (simp_all add: seed_in_range_def)
  have a: "fst (iter example_generator (example_sampler False\<lparr>epoch := 0\<rparr>)) = Inr [[3], [0], [2], [4]]"
    by code_simp
  have "fst (iter example_generator (example_sampler False\<lparr>epoch := 0\<rparr>))
      = fst (iter example_generator (example_sampler False\<lparr>epoch := 7\<rparr>))"
    using iter_unshuffled_epoch_independent[OF u example_seed_valid, of 0 7] r by blast
  then show ?thesis
    using u example_seed_valid r a by simp
qed

section \<open>Properties of the fetch\<close>

lemma py_take_nonneg: "0 \<le> k \<Longrightarrow> py_take xs k = take (nat k) xs"
  by (simp add: py_take_def)

lemma slice_cols_nonneg:
  "0 \<le> k \<Longrightarrow>
   slice_cols t k = \<lparr> dim0 = dim0 t, dim1 = min (dim1 t) (nat k), elems = map (take (nat k)) (elems t) \<rparr>"
  by (simp add: slice_cols_def py_take_nonneg min.commute)

text \<open>
  Claim C8 as stated: whenever text and tone have the same length and that length
  differs from the time-length of spec, the fetch returns text, tone, f0 and spec of
  length \<open>min(len_text, len_spec)\<close> and a wav of that minimum times \<open>samples_per_frame\<close>
  samples. It fails for a sample whose f0 or wav is shorter than that: a slice never
  lengthens. Here text and tone have 2 entries, spec 3 frames, f0 1 entry and wav 5
  samples; f0 keeps its single entry and wav its 5 samples.
\<close>

theorem fetch_lengths_counterexample:
  "\<not> (\<forall>text tone (f0 :: int list) spec wav.
         length text = length tone \<and> length text \<noteq> dim1 spec \<longrightarrow>
         (\<exists>t n f sp w.
            get_audio_text_pair text tone f0 spec wav = Inr (t, n, f, sp, w)
            \<and> length t = min (length text) (dim1 spec)
            \<and> length n = min (length text) (dim1 spec)
            \<and> length f = min (length text) (dim1 spec)
            \<and> dim1 sp = min (length text) (dim1 spec)
            \<and> int (dim1 w) = int (min (length text) (dim1 spec)) * samples_per_frame))"
proof
  assume a: "\<forall>text tone (f0 :: int list) spec wav.
         length text = length tone \<and> length text \<noteq> dim1 spec \<longrightarrow>
         (\<exists>t n f sp w.
            get_audio_text_pair text tone f0 spec wav = Inr (t, n, f, sp, w)
            \<and> length t = min (length text) (dim1 spec)
            \<and> length n = min (length text) (dim1 spec)
            \<and> length f = min (length text) (dim1 spec)
            \<and> dim1 sp = min (length text) (dim1 spec)
            \<and> int (dim1 w) = int (min (length text) (dim1 spec)) * samples_per_frame)"
  define spec :: "int tensor2" where "spec = \<lparr> dim0 = 1, dim1 = 3, elems = [[0, 0, 0]] \<rparr>"
  define wav :: "int tensor2" where "wav = \<lparr> dim0 = 1, dim1 = 5, elems = [[0, 0, 0, 0, 0]] \<rparr>"
  have run: "get_audio_text_pair [1, 2] [1, 2] [0 :: int] spec wav
     = Inr ([1, 2], [1, 2], [0], \<lparr> dim0 = 1, dim1 = 2, elems = [[0, 0]] \<rparr>, wav)"
    by (simp add: get_audio_text_pair_def spec_def wav_def samples_per_frame_def
          py_take_nonneg slice_cols_nonneg)
  have d: "dim1 spec = 3"
    by (simp add: spec_def)
  have "\<exists>t n f sp w.
            get_audio_text_pair [1, 2] [1, 2] [0 :: int] spec wav = Inr (t, n, f, sp, w)
            \<and> length f = min (length [1, 2 :: int]) (dim1 spec)"
    using a[rule_format, of "[1, 2]" "[1, 2]" spec "[0]" wav] d by auto
  then have "length [0 :: int] = min (length [1, 2 :: int]) (dim1 spec)"
    unfolding run by simp
  then show False
    by (simp add: d)
qed

text \<open>
  Claim C8, amended. When text and tone have the same length and that length differs
  from the time-length of spec, the fetch returns the prefixes of text, tone and f0 of
  \<open>m = min(len_text, len_spec)\<close> entries, the first \<open>m\<close> frames of spec and the first
  \<open>m * 256\<close> samples of wav. Text, tone and spec then have exactly \<open>m\<close> entries; f0 has
  \<open>min(len_f0, m)\<close> and wav \<open>min(len_wav, m * 256)\<close>, so they have \<open>m\<close> and \<open>m * 256\<close> when
  they were at least that long.
\<close>

theorem fetch_truncates_to_minimum:
  assumes "length text = length tone" "length text \<noteq> dim1 spec"
  shows "\<exists>t n f sp w.
           get_audio_text_pair text tone f0 spec wav = Inr (t, n, f, sp, w)
           \<and> t = take (min (length text) (dim1 spec)) text
           \<and> n = take (min (length text) (dim1 spec)) tone
           \<and> f = take (min (length text) (dim1 spec)) f0
           \<and> sp = \<lparr> dim0 = dim0 spec, dim1 = min (length text) (dim1 spec),
                    elems = map (take (min (length text) (dim1 spec))) (elems spec) \<rparr>
           \<and> w = \<lparr> dim0 = dim0 wav, dim1 = min (dim1 wav) (min (length text) (dim1 spec) * 256),
                   elems = map (take (min (length text) (dim1 spec) * 256)) (elems wav) \<rparr>
           \<and> length t = min (length text) (dim1 spec)
           \<and> length n = min (length text) (dim1 spec)
           \<and> length f = min (length f0) (min (length text) (dim1 spec))"
proof -
  define m where "m = min (length text) (dim1 spec)"
  have m_int: "min (int (length text)) (int (dim1 spec)) = int m"
    by (simp add: m_def)
  have ne: "int (length text) \<noteq> int (dim1 spec)"
    using assms(2) by simp
  have "get_audio_text_pair text tone f0 spec wav
      = Inr (take m text, take m tone, take m f0,
             \<lparr> dim0 = dim0 spec, dim1 = min (dim1 spec) m, elems = map (take m) (elems spec) \<rparr>,
             \<lparr> dim0 = dim0 wav, dim1 = min (dim1 wav) (m * 256),
               elems = map (take (m * 256)) (elems wav) \<rparr>)"
    unfolding get_audio_text_pair_def Let_def m_int samples_per_frame_def
    using assms(1) ne
    by (simp add: py_take_nonneg slice_cols_nonneg nat_mult_distrib)
  moreover have "min (dim1 spec) m = m" by (simp add: m_def)
  ultimately show ?thesis
    using assms(1) unfolding m_def[symmetric] by (simp add: m_def)
qed

text \<open>
  Text and tone of 10 entries, f0 and spec of 12 frames, a wav of 3072 samples: text and
  spec come back with 10 entries and the wav with \<open>10 * 256 = 2560\<close> samples.
\<close>

theorem fetch_truncates_to_minimum_witness:
  "length (replicate 10 (1::int)) = length (replicate 10 (2::int))
   \<and> length (replicate 10 (1::int))
       \<noteq> dim1 \<lparr> dim0 = 2, dim1 = 12, elems = replicate 2 (replicate 12 (0::int)) \<rparr>
   \<and> get_audio_text_pair (replicate 10 1) (replicate 10 2) (replicate 12 (0::int))
         \<lparr> dim0 = 2, dim1 = 12, elems = replicate 2 (replicate 12 0) \<rparr>
         \<lparr> dim0 = 1, dim1 = 3072, elems = replicate 1 (replicate 3072 0) \<rparr>
       = Inr (replicate 10 1, replicate 10 2, replicate 10 0,
              \<lparr> dim0 = 2, dim1 = 10, elems = replicate 2 (replicate 10 0) \<rparr>,
              \<lparr> dim0 = 1, dim1 = 2560, elems = replicate 1 (replicate 2560 0) \<rparr>)"
  using fetch_truncates_to_minimum[of "replicate 10 1" "replicate 10 2"
      "\<lparr> dim0 = 2, dim1 = 12, elems = replicate 2 (replicate 12 (0::int)) \<rparr>"
      "replicate 12 (0::int)"
      "\<lparr> dim0 = 1, dim1 = 3072, elems = replicate 1 (replicate 3072 (0::int)) \<rparr>"]
  by simp

section \<open>Properties of the extended and subsampled index lists\<close>

lemma concat_replicate_nth:
  "p < k * length xs \<Longrightarrow> concat (replicate k xs) ! p = xs ! (p mod length xs)"
proof (induction k arbitrary: p)
  case 0
  then show ?case by simp
next
  case (Suc k)
  show ?case
  proof (cases "p < length xs")
    case True
    then show ?thesis by (simp add: nth_append)
  next
    case False
    then have "p - length xs < k * length xs" using Suc.prems by simp
    then have "concat (replicate k xs) ! (p - length xs) = xs ! ((p - length xs) mod length xs)"
      by (rule Suc.IH)
    moreover have "(p - length xs) mod length xs = p mod length xs"
      using False by (simp add: le_mod_geq)
    ultimately show ?thesis using False by (simp add: nth_append)
  qed
qed

lemma length_concat_replicate: "length (concat (replicate k xs)) = k * length xs"
  by (induction k) simp_all

lemma extend_ids_cyclic:
  assumes "perm \<noteq> []" "0 \<le> rem"
  shows "\<exists>ext. extend_ids perm rem (int (length perm)) = Inr ext
           \<and> length ext = length perm + nat rem
           \<and> (\<forall>p. p < length ext \<longrightarrow> ext ! p = perm ! (p mod length perm))"
proof -
  define n where "n = length perm"
  define k where "k = nat rem div n"
  define r where "r = nat rem mod n"
  define ext where "ext = perm @ concat (replicate k perm) @ take r perm"
  have n: "0 < n" using assms(1) by (simp add: n_def)
  have kq: "nat (rem div int n) = k"
    using assms(2) by (simp add: k_def nat_div_distrib)
  have rq: "nat (rem mod int n) = r"
    using assms(2) by (simp add: r_def nat_mod_distrib)
  have rm_nonneg: "0 \<le> rem mod int n" using n by simp
  have tk: "py_take perm (rem mod int n) = take r perm"
    using py_take_nonneg[OF rm_nonneg, of perm] by (simp add: rq)
  have run: "extend_ids perm rem (int (length perm)) = Inr ext"
    using n kq tk
    by (simp add: extend_ids_def py_repeat_def ext_def n_def[symmetric])
  have r_lt: "r < n" using n by (simp add: r_def)
  have split: "nat rem = k * n + r"
    by (simp add: k_def r_def)
  have len: "length ext = n + nat rem"
    using r_lt by (simp add: ext_def length_concat_replicate n_def[symmetric] split)
  define full where "full = concat (replicate (Suc k) perm)"
  have full_len: "length full = Suc k * n"
    unfolding full_def n_def by (rule length_concat_replicate)
  have full_nth: "full ! p = perm ! (p mod n)" if "p < Suc k * n" for p
    unfolding full_def n_def using that concat_replicate_nth[of p "Suc k" perm]
    by (simp only: n_def)
  have ext': "ext = full @ take r perm"
    by (simp add: ext_def full_def)
  have nth: "ext ! p = perm ! (p mod n)" if p: "p < length ext" for p
  proof (cases "p < Suc k * n")
    case True
    then show ?thesis
      unfolding ext' using full_nth[OF True] by (simp only: nth_append full_len if_True)
  next
    case False
    then have ge: "Suc k * n \<le> p" by simp
    have lt: "p - Suc k * n < r" using p ge len split by simp
    have "ext ! p = take r perm ! (p - Suc k * n)"
      unfolding ext' using False by (simp only: nth_append full_len if_False)
    also have "\<dots> = perm ! (p - Suc k * n)" using lt by simp
    also have "p - Suc k * n = p mod n"
    proof -
      have "p = Suc k * n + (p - Suc k * n)" using ge by simp
      then have "p mod n = (Suc k * n + (p - Suc k * n)) mod n" by simp
      also have "\<dots> = (p - Suc k * n) mod n" by (simp del: mult_Suc)
      also have "\<dots> = p - Suc k * n" using lt r_lt by simp
      finally show ?thesis by simp
    qed
    finally show ?thesis .
  qed
  show ?thesis using run len nth by (auto simp: n_def)
qed


lemma ceil_div_less_iff:
  fixes k a R :: nat
  assumes "0 < R"
  shows "k < (a + R - 1) div R \<longleftrightarrow> k * R < a"
proof -
  have "k < (a + R - 1) div R \<longleftrightarrow> \<not> (a + R - 1) div R < Suc k" by auto
  also have "\<dots> \<longleftrightarrow> \<not> a + R - 1 < Suc k * R"
    using assms by (simp only: div_less_iff_less_mult)
  also have "\<dots> \<longleftrightarrow> k * R < a" using assms by auto
  finally show ?thesis .
qed

lemma slice_positions_up:
  assumes "r < R"
  shows "slice_positions N (int r) (int R)
           = map (\<lambda>k. min r N + k * R) [0..<(N - min r N + R - 1) div R]"
proof -
  have R: "0 < R" using assms by simp
  have s: "min (int r) (int N) = int (min r N)" by simp
  have "int N - int (min r N) + int R - 1 = int (N - min r N + R - 1)"
    using R by (simp add: of_nat_diff)
  then have c: "nat ((int N - int (min r N) + int R - 1) div int R) = (N - min r N + R - 1) div R"
    by (simp add: zdiv_int[symmetric] del: of_nat_add of_nat_diff)
  have f: "nat (int (min r N) + int k * int R) = min r N + k * R" for k
    by (simp add: nat_add_distrib nat_mult_distrib)
  have "slice_positions N (int r) (int R)
      = map (\<lambda>k. nat (min (int r) (int N) + int k * int R))
          [0..<nat ((int N - min (int r) (int N) + int R - 1) div int R)]"
    using R by (simp add: slice_positions_def Let_def)
  then show ?thesis
    by (simp only: s c f)
qed

lemma set_slice_positions:
  assumes "r < R"
  shows "set (slice_positions N (int r) (int R)) = {p. p < N \<and> p mod R = r}"
proof (cases "r < N")
  case False
  then have "(N - min r N + R - 1) div R = 0" using assms by simp
  then have "set (slice_positions N (int r) (int R)) = {}"
    by (simp add: slice_positions_up[OF assms])
  moreover have "{p. p < N \<and> p mod R = r} = {}"
  proof -
    have "\<not> (p < N \<and> p mod R = r)" for p
    proof
      assume "p < N \<and> p mod R = r"
      then have "p < N" "r \<le> p" using mod_less_eq_dividend[of p R] by auto
      then show False using False by simp
    qed
    then show ?thesis by simp
  qed
  ultimately show ?thesis by simp
next
  case True
  have R: "0 < R" using assms by simp
  have m: "min r N = r" using True by simp
  have "set (slice_positions N (int r) (int R)) = (\<lambda>k. r + k * R) ` {k. k < (N - r + R - 1) div R}"
    by (simp add: slice_positions_up[OF assms] m atLeast0LessThan lessThan_def)
  also have "\<dots> = (\<lambda>k. r + k * R) ` {k. k * R < N - r}"
    by (simp only: ceil_div_less_iff[OF R])
  also have "\<dots> = {p. p < N \<and> p mod R = r}"
  proof (rule set_eqI, rule iffI)
    fix p assume "p \<in> (\<lambda>k. r + k * R) ` {k. k * R < N - r}"
    then obtain k where "k * R < N - r" "p = r + k * R" by auto
    then show "p \<in> {p. p < N \<and> p mod R = r}" using assms by auto
  next
    fix p assume "p \<in> {p. p < N \<and> p mod R = r}"
    then have p: "p < N" "p mod R = r" by auto
    have "p = r + (p div R) * R" using p(2) by (metis add.commute div_mult_mod_eq)
    moreover have "(p div R) * R < N - r" using p calculation by linarith
    ultimately show "p \<in> (\<lambda>k. r + k * R) ` {k. k * R < N - r}" by blast
  qed
  finally show ?thesis .
qed

lemma distinct_slice_positions:
  assumes "r < R"
  shows "distinct (slice_positions N (int r) (int R))"
  using assms by (simp add: slice_positions_up distinct_map inj_on_def)

lemma length_slice_positions:
  assumes "r < R" "R dvd N"
  shows "length (slice_positions N (int r) (int R)) = N div R"
proof -
  obtain q where q: "N = R * q" using assms(2) by (auto simp: dvd_def)
  have R: "0 < R" using assms(1) by simp
  show ?thesis
  proof (cases "q = 0")
    case True
    then show ?thesis using q R by (simp add: slice_positions_up[OF assms(1)])
  next
    case False
    then have "R \<le> R * q" by simp
    with assms(1) have "r < R * q" by (rule less_le_trans)
    then have "r < N" using q by simp
    then have m: "min r N = r" by simp
    have "(N - r + R - 1) div R = q"
    proof -
      have "N - r + R - 1 = q * R + (R - 1 - r)" using assms(1) q \<open>r < N\<close>
        by (simp add: algebra_simps)
      moreover have "R - 1 - r < R" using R by simp
      ultimately show ?thesis by simp
    qed
    then have "length (slice_positions N (int r) (int R)) = q"
      by (simp only: slice_positions_up[OF assms(1)] m length_map length_upt diff_zero)
    then show ?thesis using q R by simp
  qed
qed



lemma padded_count_multiple:
  fixes T n :: int
  assumes "0 < T"
  shows "0 \<le> (T - n mod T) mod T" "T dvd n + (T - n mod T) mod T"
proof -
  show "0 \<le> (T - n mod T) mod T"
    using assms by (rule pos_mod_sign)
  have "n - n mod T = T * (n div T)"
    by (rule minus_mod_eq_mult_div)
  then have e: "n + (T - n mod T) = T * (n div T) + T"
    by linarith
  have "(n + (T - n mod T) mod T) mod T = (n + (T - n mod T)) mod T"
    by (rule mod_add_right_eq)
  also have "\<dots> = (T * (n div T) + T) mod T"
    by (simp only: e)
  also have "\<dots> = 0"
    by simp
  finally show "T dvd n + (T - n mod T) mod T"
    by (rule mod_0_imp_dvd)
qed

text \<open>
  Claim C6. For a non-empty bucket, positive replica count and batch size, and the
  bucket's index list \<open>ids\<close> (the permutation drawn for the epoch, or the identity):
  the list extended to the padded count has exactly that many elements, each the entry
  of \<open>ids\<close> at its position modulo the bucket size; and the slices
  \<open>extended[rank::replicas]\<close> of the ranks \<open>0..replicas-1\<close> read pairwise disjoint sets of
  positions whose union is all positions of the extended list. Each slice reads no
  position twice and holds an equal share, \<open>padded / replicas\<close> elements.
\<close>

theorem rank_slices_partition:
  assumes "ids \<noteq> []" "0 < R" "0 < B" "padded_count R B (int (length ids)) = Inr padded"
  shows "\<exists>ext. extend_ids ids (padded - int (length ids)) (int (length ids)) = Inr ext
      \<and> int (length ext) = padded
      \<and> (\<forall>p. p < length ext \<longrightarrow> ext ! p = ids ! (p mod length ids))
      \<and> (\<forall>r. 0 \<le> r \<and> r < R \<longrightarrow>
             py_stride ext r R = Inr (map ((!) ext) (slice_positions (length ext) r R))
             \<and> distinct (slice_positions (length ext) r R)
             \<and> int (length (slice_positions (length ext) r R)) * R = padded)
      \<and> (\<forall>r r'. 0 \<le> r \<and> r < R \<and> 0 \<le> r' \<and> r' < R \<and> r \<noteq> r' \<longrightarrow>
             set (slice_positions (length ext) r R) \<inter> set (slice_positions (length ext) r' R) = {})
      \<and> (\<Union>r\<in>{0..<R}. set (slice_positions (length ext) r R)) = {0..<length ext}"
proof -
  define T where "T = R * B"
  define rem where "rem = (T - int (length ids) mod T) mod T"
  have T: "0 < T" using assms(2,3) by (simp add: T_def)
  have "padded_count R B (int (length ids)) = Inr (int (length ids) + rem)"
    using assms(2,3) by (simp add: padded_count_def Let_def T_def rem_def)
  then have padded: "padded = int (length ids) + rem"
    using assms(4) by simp
  have rem: "0 \<le> rem" and T_dvd: "T dvd padded"
    unfolding padded rem_def using padded_count_multiple[OF T] by simp_all
  have R_dvd: "R dvd padded"
    using T_dvd unfolding T_def by (rule dvd_mult_left)
  obtain ext where run: "extend_ids ids (padded - int (length ids)) (int (length ids)) = Inr ext"
    and len: "length ext = length ids + nat rem"
    and cyc: "\<forall>p. p < length ext \<longrightarrow> ext ! p = ids ! (p mod length ids)"
    using extend_ids_cyclic[OF assms(1) rem] by (auto simp: padded)
  have len_int: "int (length ext) = padded"
    using len rem by (simp add: padded)
  define Rn where "Rn = nat R"
  have Rn: "R = int Rn" "0 < Rn" using assms(2) by (simp_all add: Rn_def)
  have Rn_dvd: "Rn dvd length ext"
    using R_dvd len_int Rn by (metis int_dvd_int_iff)
  have pos: "slice_positions (length ext) r R = slice_positions (length ext) (int (nat r)) (int Rn)"
    if "0 \<le> r" for r using that Rn by simp
  have per_rank: "py_stride ext r R = Inr (map ((!) ext) (slice_positions (length ext) r R))
             \<and> distinct (slice_positions (length ext) r R)
             \<and> int (length (slice_positions (length ext) r R)) * R = padded"
    if r: "0 \<le> r" "r < R" for r
  proof -
    have lt: "nat r < Rn" using r Rn by simp
    have "length (slice_positions (length ext) r R) = length ext div Rn"
      unfolding pos[OF r(1)] using length_slice_positions[OF lt Rn_dvd] .
    then have "int (length (slice_positions (length ext) r R)) * R = int (length ext div Rn * Rn)"
      using Rn by simp
    also have "\<dots> = padded" using Rn_dvd len_int by simp
    finally have "int (length (slice_positions (length ext) r R)) * R = padded" .
    moreover have "distinct (slice_positions (length ext) r R)"
      unfolding pos[OF r(1)] using distinct_slice_positions[OF lt] .
    moreover have "py_stride ext r R = Inr (map ((!) ext) (slice_positions (length ext) r R))"
      using assms(2) by (simp add: py_stride_def)
    ultimately show ?thesis by simp
  qed
  have sets: "set (slice_positions (length ext) r R) = {p. p < length ext \<and> p mod Rn = nat r}"
    if r: "0 \<le> r" "r < R" for r
  proof -
    have lt: "nat r < Rn" using r Rn by simp
    show ?thesis unfolding pos[OF r(1)] using set_slice_positions[OF lt] .
  qed
  have disjoint: "set (slice_positions (length ext) r R) \<inter> set (slice_positions (length ext) r' R) = {}"
    if "0 \<le> r" "r < R" "0 \<le> r'" "r' < R" "r \<noteq> r'" for r r'
    using that by (auto simp: sets)
  have cover: "(\<Union>r\<in>{0..<R}. set (slice_positions (length ext) r R)) = {0..<length ext}"
  proof (rule set_eqI, rule iffI)
    fix p assume "p \<in> (\<Union>r\<in>{0..<R}. set (slice_positions (length ext) r R))"
    then obtain r where "0 \<le> r" "r < R" "p \<in> set (slice_positions (length ext) r R)" by auto
    then show "p \<in> {0..<length ext}" by (simp add: sets)
  next
    fix p assume "p \<in> {0..<length ext}"
    then have p: "p < length ext" by simp
    have "int (p mod Rn) \<in> {0..<R}" using Rn by simp
    moreover have "p \<in> set (slice_positions (length ext) (int (p mod Rn)) (int Rn))"
      using set_slice_positions[of "p mod Rn" Rn "length ext"] p Rn(2) by simp
    then have "p \<in> set (slice_positions (length ext) (int (p mod Rn)) R)"
      by (simp only: Rn(1))
    ultimately show "p \<in> (\<Union>r\<in>{0..<R}. set (slice_positions (length ext) r R))" by blast
  qed
  have per_rank_all: "\<forall>r. 0 \<le> r \<and> r < R \<longrightarrow>
             py_stride ext r R = Inr (map ((!) ext) (slice_positions (length ext) r R))
             \<and> distinct (slice_positions (length ext) r R)
             \<and> int (length (slice_positions (length ext) r R)) * R = padded"
    using per_rank by blast
  have disjoint_all: "\<forall>r r'. 0 \<le> r \<and> r < R \<and> 0 \<le> r' \<and> r' < R \<and> r \<noteq> r' \<longrightarrow>
             set (slice_positions (length ext) r R) \<inter> set (slice_positions (length ext) r' R) = {}"
    using disjoint by blast
  show ?thesis
    by (rule exI[of _ ext]) (intro conjI run len_int cyc per_rank_all disjoint_all cover)
qed

text \<open>
  A bucket of three samples with the permutation \<open>[2, 0, 1]\<close>, two replicas and batches
  of two: the padded count is 4, and the two ranks read positions \<open>0, 2\<close> and \<open>1, 3\<close>.
\<close>

theorem rank_slices_partition_witness:
  "[2, 0, 1 :: nat] \<noteq> [] \<and> (0 :: int) < 2
   \<and> padded_count 2 2 (int (length [2, 0, 1 :: nat])) = Inr 4
   \<and> extend_ids [2, 0, 1] (4 - int (length [2, 0, 1 :: nat])) (int (length [2, 0, 1 :: nat]))
       = Inr [2, 0, 1, 2]
   \<and> slice_positions 4 0 2 = [0, 2] \<and> slice_positions 4 1 2 = [1, 3]
   \<and> py_stride [2, 0, 1, 2 :: nat] 0 2 = Inr [2, 1]
   \<and> py_stride [2, 0, 1, 2 :: nat] 1 2 = Inr [0, 2]"
proof -
  have h1: "[2, 0, 1 :: nat] \<noteq> []" and h2: "(0 :: int) < 2"
    by simp_all
  have h3: "padded_count 2 2 (int (length [2, 0, 1 :: nat])) = Inr 4"
    by code_simp
  have e: "extend_ids [2, 0, 1] (4 - int (length [2, 0, 1 :: nat])) (int (length [2, 0, 1 :: nat]))
       = Inr [2, 0, 1, 2]"
    by code_simp
  have p: "slice_positions 4 0 2 = [0, 2]" "slice_positions 4 1 2 = [1, 3]"
    by code_simp+
  have s: "py_stride [2, 0, 1, 2 :: nat] 0 2 = Inr [2, 1]"
    "py_stride [2, 0, 1, 2 :: nat] 1 2 = Inr [0, 2]"
    by code_simp+
  show ?thesis
    using rank_slices_partition[OF h1 h2 h2 h3] h1 h2 h3 e p s by simp
qed

section \<open>The batch-count invariant of iteration\<close>

lemma gather_in_range:
  "(\<forall>i\<in>set is. i < length xs) \<Longrightarrow> gather xs is = Inr (map ((!) xs) is)"
  by (induction "is") (simp_all add: py_index_def)

lemma clamp_index_nat: "clamp_index n (int k) = min k n"
  by (simp add: clamp_index_def)

lemma py_slice_nat: "py_slice xs (int a) (int b) = drop a (take b xs)"
proof -
  have "py_slice xs (int a) (int b) = drop (min a (length xs)) (take (min b (length xs)) xs)"
    by (simp only: py_slice_def clamp_index_nat)
  also have "take (min b (length xs)) xs = take b xs"
    by (simp add: min_def)
  also have "drop (min a (length xs)) (take b xs) = drop a (take b xs)"
    by (cases "a \<le> length xs") (simp_all add: min_def)
  finally show ?thesis .
qed

lemma make_batches_full:
  assumes "0 < Bn" "\<forall>x\<in>set sub. x < length bucket" "\<forall>j\<in>set js. Suc j * Bn \<le> length sub"
  shows "make_batches bucket sub (int Bn) js
           = Inr (map (\<lambda>j. map ((!) bucket) (take Bn (drop (j * Bn) sub))) js)"
  using assms(3)
proof (induction js)
  case Nil
  then show ?case by simp
next
  case (Cons j js)
  have b: "int j * int Bn = int (j * Bn)" "(int j + 1) * int Bn = int (Suc j * Bn)"
    by (simp_all add: algebra_simps)
  have sl: "py_slice sub (int j * int Bn) ((int j + 1) * int Bn) = take Bn (drop (j * Bn) sub)"
    by (simp only: b py_slice_nat drop_take) simp
  have "\<forall>i\<in>set (take Bn (drop (j * Bn) sub)). i < length bucket"
    using assms(2) by (meson in_set_dropD in_set_takeD)
  then have g: "gather bucket (take Bn (drop (j * Bn) sub))
      = Inr (map ((!) bucket) (take Bn (drop (j * Bn) sub)))"
    by (rule gather_in_range)
  have ih: "make_batches bucket sub (int Bn) js
           = Inr (map (\<lambda>j. map ((!) bucket) (take Bn (drop (j * Bn) sub))) js)"
    using Cons by simp
  show ?case
    by (simp only: make_batches.simps sl g ih sum.case list.map)
qed

lemma shuffled_indices_valid:
  assumes "valid_randperm rp"
  shows "length (fst (shuffled_indices rp bkts g)) = length bkts
       \<and> (\<forall>i<length bkts. length (fst (shuffled_indices rp bkts g) ! i) = length (bkts ! i)
              \<and> set (fst (shuffled_indices rp bkts g) ! i) = {0..<length (bkts ! i)})"
proof (induction bkts arbitrary: g)
  case Nil
  then show ?case by simp
next
  case (Cons b bkts)
  obtain perm g1 where p: "rp (length b) g = (perm, g1)" by (cases "rp (length b) g")
  obtain perms g2 where ps: "shuffled_indices rp bkts g1 = (perms, g2)"
    by (cases "shuffled_indices rp bkts g1")
  have perm: "distinct perm" "set perm = {0..<length b}"
    using assms p unfolding valid_randperm_def by (metis fst_conv)+
  have "length perm = card (set perm)" using perm(1) by (simp add: distinct_card)
  then have lp: "length perm = length b" using perm(2) by simp
  have ih: "length perms = length bkts"
    "\<forall>i<length bkts. length (perms ! i) = length (bkts ! i) \<and> set (perms ! i) = {0..<length (bkts ! i)}"
    using Cons[of g1] ps by simp_all
  have r: "fst (shuffled_indices rp (b # bkts) g) = perm # perms"
    by (simp add: p ps)
  show ?case
    unfolding r using ih lp perm(2) by (auto simp: nth_Cons split: nat.splits)
qed

lemma identity_indices_valid:
  "length (identity_indices bkts) = length bkts
   \<and> (\<forall>i<length bkts. length (identity_indices bkts ! i) = length (bkts ! i)
          \<and> set (identity_indices bkts ! i) = {0..<length (bkts ! i)})"
  by (simp add: identity_indices_def)

lemma bucket_batches_ok:
  assumes i: "i < length (buckets s)" and ne: "buckets s ! i \<noteq> []"
    and li: "length indices = length (buckets s)"
    and lid: "length (indices ! i) = length (buckets s ! i)"
    and sid: "set (indices ! i) = {0..<length (buckets s ! i)}"
    and lc: "length (num_samples_per_bucket s) = length (buckets s)"
    and pc: "padded_count (num_replicas s) (batch_size s) (int (length (buckets s ! i)))
               = Inr (num_samples_per_bucket s ! i)"
    and B: "0 < batch_size s" and r0: "0 \<le> rank s" and rR: "rank s < num_replicas s"
  shows "\<exists>bs. bucket_batches s indices i = Inr bs
           \<and> int (length bs) * (num_replicas s * batch_size s) = num_samples_per_bucket s ! i
           \<and> list_all (\<lambda>b. int (length b) = batch_size s) bs
           \<and> (\<forall>b\<in>set bs. set b \<subseteq> set (buckets s ! i))"
proof -
  define bucket where "bucket = buckets s ! i"
  define ids where "ids = indices ! i"
  define padded where "padded = num_samples_per_bucket s ! i"
  define n where "n = length bucket"
  define Rn where "Rn = nat (num_replicas s)"
  define Bn where "Bn = nat (batch_size s)"
  define T where "T = num_replicas s * batch_size s"
  define rem where "rem = (T - int n mod T) mod T"
  have R: "0 < num_replicas s" using r0 rR by simp
  have Rn: "num_replicas s = int Rn" "0 < Rn" using R by (simp_all add: Rn_def)
  have Bn: "batch_size s = int Bn" "0 < Bn" using B by (simp_all add: Bn_def)
  have T: "0 < T" using R B by (simp add: T_def)
  have n: "0 < n" using ne by (simp add: n_def bucket_def)
  have ids_ne: "ids \<noteq> []" and ids_len: "length ids = n"
    using lid n by (auto simp: ids_def n_def bucket_def)
  have "padded_count (num_replicas s) (batch_size s) (int n) = Inr (int n + rem)"
    using R B by (simp add: padded_count_def Let_def T_def rem_def)
  then have padded: "padded = int n + rem"
    using pc by (simp add: padded_def n_def bucket_def)
  have rem: "0 \<le> rem" and T_dvd: "T dvd padded"
    unfolding padded rem_def using padded_count_multiple[OF T] by simp_all
  obtain m where m: "padded = T * m" using T_dvd by (auto simp: dvd_def)
  have m0: "0 \<le> m"
  proof (rule ccontr)
    assume "\<not> 0 \<le> m"
    then have "T * m < 0" using T by (simp add: mult_less_0_iff)
    then show False using m padded rem by simp
  qed
  define mn where "mn = nat m"
  have padded_n: "padded = int (Rn * Bn * mn)"
    using m m0 by (simp add: T_def Rn Bn mn_def)
  obtain ext where run: "extend_ids ids rem (int (length ids)) = Inr ext"
    and len: "length ext = length ids + nat rem"
    and cyc: "\<forall>p. p < length ext \<longrightarrow> ext ! p = ids ! (p mod length ids)"
    using extend_ids_cyclic[OF ids_ne rem] by auto
  have "int (length ext) = padded"
    using len rem ids_len by (simp add: padded)
  then have "int (length ext) = int (Rn * Bn * mn)"
    by (simp only: padded_n)
  then have len_ext: "length ext = Rn * Bn * mn"
    by (simp only: of_nat_eq_iff)
  have ext_lt: "\<forall>x\<in>set ext. x < n"
  proof
    fix x assume "x \<in> set ext"
    then obtain p where p: "p < length ext" "x = ext ! p" by (auto simp: in_set_conv_nth)
    have "p mod length ids < length ids" using ids_len n by simp
    then have "ids ! (p mod length ids) \<in> set ids" by simp
    then have "ext ! p \<in> {0..<n}" using cyc p(1) sid by (simp add: ids_def n_def bucket_def)
    then show "x < n" using p(2) by simp
  qed
  define sub where "sub = map ((!) ext) (slice_positions (length ext) (rank s) (num_replicas s))"
  have stride: "py_stride ext (rank s) (num_replicas s) = Inr sub"
    using R by (simp add: py_stride_def sub_def)
  have lt: "nat (rank s) < Rn" using r0 rR Rn by simp
  have pos: "slice_positions (length ext) (rank s) (num_replicas s)
      = slice_positions (length ext) (int (nat (rank s))) (int Rn)"
    using r0 Rn by simp
  have "Rn dvd length ext" by (simp add: len_ext)
  then have "length sub = length ext div Rn"
    unfolding sub_def pos using length_slice_positions[OF lt] by simp
  then have len_sub: "length sub = Bn * mn"
    using Rn(2) by (simp add: len_ext mult.assoc)
  have sub_lt: "\<forall>x\<in>set sub. x < length bucket"
  proof
    fix x assume "x \<in> set sub"
    then obtain p where "p \<in> set (slice_positions (length ext) (int (nat (rank s))) (int Rn))"
      "x = ext ! p" unfolding sub_def pos by auto
    then have "p < length ext" "x = ext ! p"
      using set_slice_positions[OF lt] by auto
    then show "x < length bucket" using ext_lt by (simp add: n_def)
  qed
  have cnt: "nat (int (length sub) div batch_size s) = mn"
    using Bn(2) by (simp add: len_sub Bn(1) zdiv_int[symmetric] del: of_nat_mult)
  have full: "\<forall>j\<in>set [0..<mn]. Suc j * Bn \<le> length sub"
  proof
    fix j assume "j \<in> set [0..<mn]"
    then have "Suc j \<le> mn" by simp
    then have "Suc j * Bn \<le> mn * Bn" by (rule mult_le_mono1)
    then show "Suc j * Bn \<le> length sub" by (simp add: len_sub mult.commute)
  qed
  define bs where "bs = map (\<lambda>j. map ((!) bucket) (take Bn (drop (j * Bn) sub))) [0..<mn]"
  have mk: "make_batches bucket sub (int Bn) [0..<mn] = Inr bs"
    unfolding bs_def using make_batches_full[OF Bn(2) sub_lt full] .
  have i1: "py_index (buckets s) (int i) = Inr bucket"
    using i by (simp add: py_index_def bucket_def)
  have i2: "py_index indices (int i) = Inr ids"
    using i li by (simp add: py_index_def ids_def)
  have i3: "py_index (num_samples_per_bucket s) (int i) = Inr padded"
    using i lc by (simp add: py_index_def padded_def)
  have rem_eq: "padded - int (length bucket) = rem"
    by (simp add: padded n_def)
  have b0: "batch_size s \<noteq> 0" using B by simp
  have result: "bucket_batches s indices i = Inr bs"
    unfolding bucket_batches_def i1 i2 i3 sum.case Let_def rem_eq
    using run stride mk b0 cnt by (simp add: ids_len n_def Bn(1)[symmetric])
  have count: "int (length bs) * (num_replicas s * batch_size s) = num_samples_per_bucket s ! i"
    using padded_n by (simp add: bs_def Rn(1) Bn(1) padded_def[symmetric] mult.commute mult.left_commute)
  have sizes: "list_all (\<lambda>b. int (length b) = batch_size s) bs"
  proof -
    have "length (take Bn (drop (j * Bn) sub)) = Bn" if "j < mn" for j
    proof -
      have "Suc j * Bn \<le> length sub" using full that by simp
      then show ?thesis by simp
    qed
    then show ?thesis by (simp add: bs_def list_all_iff Bn(1))
  qed
  have members: "\<forall>b\<in>set bs. set b \<subseteq> set (buckets s ! i)"
  proof
    fix b assume "b \<in> set bs"
    then obtain j where b: "b = map ((!) bucket) (take Bn (drop (j * Bn) sub))"
      by (auto simp: bs_def)
    have "\<forall>x\<in>set (take Bn (drop (j * Bn) sub)). x < length bucket"
      using sub_lt by (meson in_set_dropD in_set_takeD)
    then show "set b \<subseteq> set (buckets s ! i)"
      unfolding b bucket_def[symmetric] by auto
  qed
  show ?thesis
    using result count sizes members by blast
qed

lemma all_batches_ok:
  assumes "\<forall>i\<in>set is. \<exists>bs. bucket_batches s indices i = Inr bs
             \<and> int (length bs) * T = c i \<and> list_all P bs"
  shows "\<exists>bss. all_batches s indices is = Inr bss
           \<and> int (length bss) * T = sum_list (map c is) \<and> list_all P bss"
  using assms
proof (induction "is")
  case Nil
  then show ?case by simp
next
  case (Cons i "is")
  obtain bs where bs: "bucket_batches s indices i = Inr bs" "int (length bs) * T = c i"
    "list_all P bs"
    using Cons.prems by auto
  obtain rest where rest: "all_batches s indices is = Inr rest"
    "int (length rest) * T = sum_list (map c is)" "list_all P rest"
    using Cons.IH Cons.prems by auto
  have "all_batches s indices (i # is) = Inr (bs @ rest)"
    by (simp add: bs(1) rest(1))
  moreover have "int (length (bs @ rest)) * T = sum_list (map c (i # is))"
    using bs(2) rest(2) by (simp add: algebra_simps)
  moreover have "list_all P (bs @ rest)"
    using bs(3) rest(3) by simp
  ultimately show ?case by blast
qed

lemma init_fields:
  assumes "init lens bsize bnds R rnk shuf = Inr s"
  shows "batch_size s = bsize" "num_replicas s = R" "rank s = rnk" "shuffle s = shuf"
    "count_samples R bsize (buckets s) = Inr (num_samples_per_bucket s)"
    "num_samples s = sum_list (num_samples_per_bucket s) div R"
    "0 \<le> rnk" "rnk < R"
proof -
  show r: "0 \<le> rnk" "rnk < R"
    using assms by (auto simp: init_def split: if_splits)
  then have chk: "\<not> (rnk \<ge> R \<or> rnk < 0)" by simp
  obtain bkts counts bnds' where c: "create_buckets lens bnds R bsize = Inr (bkts, counts, bnds')"
    using assms chk by (cases "create_buckets lens bnds R bsize") (auto simp: init_def)
  have s: "s = \<lparr> lengths = lens, batch_size = bsize, boundaries = bnds', num_replicas = R,
                 rank = rnk, shuffle = shuf, epoch = 0, buckets = bkts,
                 num_samples_per_bucket = counts, total_size = sum_list counts,
                 num_samples = sum_list counts div R, batches = None \<rparr>"
    using assms c chk by (simp add: init_def split: if_splits)
  show "batch_size s = bsize" "num_replicas s = R" "rank s = rnk" "shuffle s = shuf"
    "num_samples s = sum_list (num_samples_per_bucket s) div R"
    by (simp_all add: s)
  show "count_samples R bsize (buckets s) = Inr (num_samples_per_bucket s)"
    using create_buckets_counts[OF c] by (simp add: s)
qed

lemma sum_list_map_nth: "sum_list (map ((!) xs) [0..<length xs]) = sum_list (xs :: int list)"
  by (simp add: map_nth)

lemma example_generator_valid: "valid_randperm (randperm example_generator)"
  by (simp add: valid_randperm_def example_generator_def)

text \<open>
  Claim C2. For a sampler as \<open>__init__\<close> builds it (so for every rank it accepts), with a
  positive batch size, every surviving bucket non-empty, and a generator that accepts
  exactly the seeds from \<open>-2^63\<close> to \<open>2^64 - 1\<close> and whose \<open>randperm\<close> returns
  permutations: for every epoch in the seed range \<open>__iter__\<close> returns, the number of
  batches times the batch size is \<open>sum(num_samples_per_bucket) // replicas\<close>, every batch
  has exactly \<open>batch_size\<close> elements, and the elements of all batches, times the number of
  replicas, are \<open>sum(num_samples_per_bucket)\<close>. For every other epoch \<open>__iter__\<close> raises
  the generator's error for the seed before it builds a batch, and leaves the sampler as
  it was: the final assertion is not reached.
\<close>

theorem iter_batch_count:
  assumes init: "init lens bsize bnds R rnk shuf = Inr s"
    and B: "0 < bsize"
    and ne: "list_all (\<lambda>b. b \<noteq> []) (buckets s)"
    and rp: "valid_randperm (randperm gen)"
    and ms: "valid_manual_seed (manual_seed gen)"
  shows "(seed_in_range e \<longrightarrow>
           (\<exists>bs. fst (iter gen (s\<lparr>epoch := e\<rparr>)) = Inr bs
              \<and> int (length bs) * bsize = sum_list (num_samples_per_bucket s) div R
              \<and> list_all (\<lambda>b. int (length b) = bsize) bs
              \<and> int (sum_list (map length bs)) * R = sum_list (num_samples_per_bucket s)))
       \<and> (\<not> seed_in_range e \<longrightarrow>
           (\<exists>err. manual_seed gen e = Inl err
              \<and> iter gen (s\<lparr>epoch := e\<rparr>) = (Inl err, s\<lparr>epoch := e\<rparr>)))"
proof -
  define s' where "s' = s\<lparr>epoch := e\<rparr>"
  note f = init_fields[OF init]
  have r0: "0 \<le> rnk" and rR: "rnk < R" by (rule f(7), rule f(8))
  have R: "0 < R" using r0 rR by simp
  have counts: "num_samples_per_bucket s
      = map (\<lambda>b. int (length b) + (R * bsize - int (length b) mod (R * bsize)) mod (R * bsize))
          (buckets s)"
    using f(5) by (simp add: count_samples_Inr)
  have lc: "length (num_samples_per_bucket s') = length (buckets s')"
    by (simp add: s'_def counts)
  have pc: "padded_count (num_replicas s') (batch_size s') (int (length (buckets s' ! i)))
               = Inr (num_samples_per_bucket s' ! i)" if "i < length (buckets s')" for i
    using that R B by (simp add: s'_def f(1,2) counts padded_count_def Let_def)
  have returns: "\<exists>bs. fst (iter gen s') = Inr bs
              \<and> int (length bs) * bsize = sum_list (num_samples_per_bucket s) div R
              \<and> list_all (\<lambda>b. int (length b) = bsize) bs
              \<and> int (sum_list (map length bs)) * R = sum_list (num_samples_per_bucket s)"
    if seed: "manual_seed gen e = Inr g" for g
  proof -
    define ig where "ig = (if shuffle s' then shuffled_indices (randperm gen) (buckets s') g
                             else (identity_indices (buckets s'), g))"
    define indices where "indices = fst ig"
    define g1 where "g1 = snd ig"
    have ig: "ig = (indices, g1)" by (simp add: indices_def g1_def)
    have valid: "length indices = length (buckets s')"
      "\<forall>i<length (buckets s'). length (indices ! i) = length (buckets s' ! i)
            \<and> set (indices ! i) = {0..<length (buckets s' ! i)}"
      using shuffled_indices_valid[OF rp, of "buckets s'" g] identity_indices_valid[of "buckets s'"]
      by (simp_all add: indices_def ig_def)
    have per_bucket: "\<forall>i\<in>set [0..<length (buckets s')]. \<exists>bs. bucket_batches s' indices i = Inr bs
               \<and> int (length bs) * (R * bsize) = num_samples_per_bucket s' ! i
               \<and> list_all (\<lambda>b. int (length b) = bsize) bs"
    proof
      fix i assume "i \<in> set [0..<length (buckets s')]"
      then have i: "i < length (buckets s')" by simp
      have nei: "buckets s' ! i \<noteq> []"
        using ne i by (simp add: s'_def list_all_length)
      have "\<exists>bs. bucket_batches s' indices i = Inr bs
             \<and> int (length bs) * (num_replicas s' * batch_size s') = num_samples_per_bucket s' ! i
             \<and> list_all (\<lambda>b. int (length b) = batch_size s') bs
             \<and> (\<forall>b\<in>set bs. set b \<subseteq> set (buckets s' ! i))"
        using valid i B r0 rR
        by (intro bucket_batches_ok[OF i nei valid(1) _ _ lc pc[OF i]]) (simp_all add: s'_def f(1,2,3))
      then show "\<exists>bs. bucket_batches s' indices i = Inr bs
               \<and> int (length bs) * (R * bsize) = num_samples_per_bucket s' ! i
               \<and> list_all (\<lambda>b. int (length b) = bsize) bs"
        by (auto simp: s'_def f(1,2))
    qed
    obtain bss where bss: "all_batches s' indices [0..<length (buckets s')] = Inr bss"
      "int (length bss) * (R * bsize)
         = sum_list (map ((!) (num_samples_per_bucket s')) [0..<length (buckets s')])"
      "list_all (\<lambda>b. int (length b) = bsize) bss"
      using all_batches_ok[OF per_bucket] by blast
    have total: "int (length bss) * (R * bsize) = sum_list (num_samples_per_bucket s)"
      using bss(2) lc sum_list_map_nth[of "num_samples_per_bucket s'"] by (simp add: s'_def)
    define out where "out = (if shuffle s' then map ((!) bss) (fst (randperm gen (length bss) g1))
                             else bss)"
    have ids: "distinct (fst (randperm gen (length bss) g1))"
      "set (fst (randperm gen (length bss) g1)) = {0..<length bss}"
      using rp by (simp_all add: valid_randperm_def)
    have "length (fst (randperm gen (length bss) g1)) = card (set (fst (randperm gen (length bss) g1)))"
      using ids(1) by (simp add: distinct_card)
    then have ids_len: "length (fst (randperm gen (length bss) g1)) = length bss"
      by (simp add: ids(2))
    have gat: "gather bss (fst (randperm gen (length bss) g1))
        = Inr (map ((!) bss) (fst (randperm gen (length bss) g1)))"
      by (rule gather_in_range) (simp add: ids(2))
    have seed': "manual_seed gen (epoch s') = Inr g"
      using seed by (simp add: s'_def)
    have eb: "epoch_batches gen s' = Inr out"
      unfolding epoch_batches_def seed' sum.case Let_def ig_def[symmetric] ig prod.case bss(1)
        out_def
      using gat by (simp add: case_prod_beta)
    have out_len: "length out = length bss"
      by (simp add: out_def ids_len)
    have out_sizes: "list_all (\<lambda>b. int (length b) = bsize) out"
      using bss(3) ids(2) by (auto simp: out_def list_all_iff)
    have count: "int (length out) * bsize = sum_list (num_samples_per_bucket s) div R"
    proof -
      have "sum_list (num_samples_per_bucket s) = int (length out) * bsize * R"
        using total by (simp add: out_len algebra_simps)
      then show ?thesis using R by simp
    qed
    have assertion: "int (length out) * batch_size s' = num_samples s'"
      using count by (simp add: s'_def f(1,6))
    have res: "fst (iter gen s') = Inr out"
      using assertion by (simp add: iter_def eb Let_def)
    have "map length out = replicate (length out) (nat bsize)"
      using out_sizes B by (intro nth_equalityI) (auto simp: list_all_length)
    then have "int (sum_list (map length out)) = int (length out) * bsize"
      using B by (simp add: sum_list_replicate)
    then have cover: "int (sum_list (map length out)) * R = sum_list (num_samples_per_bucket s)"
      using total by (simp add: out_len algebra_simps)
    show ?thesis
      using res count out_sizes cover by blast
  qed
  have refused: "iter gen s' = (Inl err, s')" if "manual_seed gen e = Inl err" for err
    using that by (intro iter_seed_refused) (simp add: s'_def)
  have in_range: "\<exists>bs. fst (iter gen s') = Inr bs
              \<and> int (length bs) * bsize = sum_list (num_samples_per_bucket s) div R
              \<and> list_all (\<lambda>b. int (length b) = bsize) bs
              \<and> int (sum_list (map length bs)) * R = sum_list (num_samples_per_bucket s)"
    if "seed_in_range e"
    using valid_manual_seed_accepts[OF ms that] returns by blast
  have out_of_range: "\<exists>err. manual_seed gen e = Inl err \<and> iter gen s' = (Inl err, s')"
    if "\<not> seed_in_range e"
    using valid_manual_seed_refuses[OF ms that] refused by blast
  show ?thesis
    using in_range out_of_range unfolding s'_def by blast
qed

text \<open>
  Epoch 1 of the shuffled example sampler: four batches of one sample. Epoch \<open>2^64\<close> is
  refused as a seed.
\<close>

theorem iter_batch_count_witness:
  "init [15, 12, 18, 5, 25] 1 [0, 10, 20, 30] 2 0 True = Inr (example_sampler True)
   \<and> (0 :: int) < 1
   \<and> list_all (\<lambda>b. b \<noteq> []) (buckets (example_sampler True))
   \<and> valid_randperm (randperm example_generator)
   \<and> valid_manual_seed (manual_seed example_generator)
   \<and> seed_in_range 1 \<and> \<not> seed_in_range (2 ^ 64)
   \<and> fst (iter example_generator (example_sampler True\<lparr>epoch := 1\<rparr>)) = Inr [[3], [2], [1], [4]]
   \<and> sum_list (num_samples_per_bucket (example_sampler True)) div 2 = 4
   \<and> fst (iter example_generator (example_sampler True\<lparr>epoch := 2 ^ 64\<rparr>)) = Inl RuntimeError"
proof -
  have h1: "init [15, 12, 18, 5, 25] 1 [0, 10, 20, 30] 2 0 True = Inr (example_sampler True)"
    by code_simp
  have h2: "(0 :: int) < 1"
    by simp
  have h5: "list_all (\<lambda>b. b \<noteq> []) (buckets (example_sampler True))"
    by (simp add: example_sampler_def)
  have r: "seed_in_range 1" "\<not> seed_in_range (2 ^ 64)"
    by (simp_all add: seed_in_range_def)
  note inst = iter_batch_count[OF h1 h2 h5 example_generator_valid example_seed_valid]
  have run: "fst (iter example_generator (example_sampler True\<lparr>epoch := 1\<rparr>)) = Inr [[3], [2], [1], [4]]"
    by code_simp
  have c: "sum_list (num_samples_per_bucket (example_sampler True)) div 2 = 4"
    by (simp add: example_sampler_def)
  have "manual_seed example_generator (2 ^ 64) = Inl RuntimeError"
    using r(2) by (simp add: example_generator_def)
  then have refused: "fst (iter example_generator (example_sampler True\<lparr>epoch := 2 ^ 64\<rparr>))
      = Inl RuntimeError"
    using inst[of "2 ^ 64"] r(2) by auto
  show ?thesis
    using h1 h2 h5 example_generator_valid example_seed_valid r run c refused inst[of 1]
    by simp
qed

section \<open>Properties of the collator\<close>

lemma and_then_Inr [simp]: "and_then (Inr x) f = f x"
  by (simp add: and_then_def)

lemma and_then_Inl [simp]: "and_then (Inl e) f = Inl e"
  by (simp add: and_then_def)

lemma py_max_Max:
  assumes "xs \<noteq> []"
  shows "py_max (map (\<lambda>x. int (f x)) xs) = Inr (int (Max (f ` set xs)))"
proof -
  obtain x rest where xs: "xs = x # rest" using assms by (cases xs) auto
  have "py_max (map (\<lambda>x. int (f x)) xs) = Inr (fold max (map (\<lambda>x. int (f x)) rest) (int (f x)))"
    by (simp add: py_max_def xs)
  also have "fold max (map (\<lambda>x. int (f x)) rest) (int (f x))
      = Max (set (int (f x) # map (\<lambda>x. int (f x)) rest))"
    by (rule Max.set_eq_fold[symmetric])
  also have "\<dots> = Max (int ` (f ` set xs))"
    by (simp add: xs image_image)
  also have "\<dots> = int (Max (f ` set xs))"
    using assms by (intro mono_Max_commute[symmetric]) (auto simp: mono_def)
  finally show ?thesis .
qed

lemma pad_zero_row:
  "length v \<le> m \<Longrightarrow> v @ drop (length v) (replicate m 0) = pad_to m v"
  by (simp add: pad_to_def)

lemma fresh_tail: "k < n \<Longrightarrow> replicate (n - k) z = z # replicate (n - Suc k) z"
  by (metis Suc_diff_Suc replicate_Suc)

lemma set_row1_fresh:
  assumes "length done < n" "length v \<le> m"
  shows "set_row1 (done @ replicate (n - length done) (replicate m 0)) (length done) v
           = Inr ((done @ [pad_to m v]) @ replicate (n - Suc (length done)) (replicate m 0))"
  using assms(2)
  by (simp add: set_row1_def write_prefix_def fresh_tail[OF assms(1)] pad_to_def)

lemma set_len_fresh:
  assumes "length done < n"
  shows "set_len (done @ replicate (n - length done) 0) (length done) v
           = Inr ((done @ [v]) @ replicate (n - Suc (length done)) 0)"
  by (simp add: set_len_def fresh_tail[OF assms(1)])

lemma map2_replicate:
  "length xs = n \<Longrightarrow> map2 f xs (replicate n z) = map (\<lambda>x. f x z) xs"
  by (induction xs arbitrary: n) auto

lemma set_row2_fresh:
  assumes "length done < n" "dim1 t \<le> m" "dim0 t = F" "wf_tensor2 t"
  shows "set_row2 (done @ replicate (n - length done) (zeros2 F m)) (length done) t
           = Inr ((done @ [pad_cols_to m t]) @ replicate (n - Suc (length done)) (zeros2 F m))"
proof -
  have rows: "length (elems t) = F" "\<forall>row\<in>set (elems t). length row = dim1 t"
    using assms(3,4) by (simp_all add: wf_tensor2_def list_all_iff)
  have "map2 (\<lambda>src dst. src @ drop (length src) dst) (elems t) (replicate F (replicate m 0))
      = map (\<lambda>src. src @ drop (length src) (replicate m 0)) (elems t)"
    using rows(1) by (rule map2_replicate)
  also have "\<dots> = map (pad_to m) (elems t)"
    using rows(2) assms(2) by (intro map_cong refl pad_zero_row) simp
  finally have e: "map2 (\<lambda>src dst. src @ drop (length src) dst) (elems t) (replicate F (replicate m 0))
      = map (pad_to m) (elems t)" .
  show ?thesis
    unfolding set_row2_def fresh_tail[OF assms(1)] Let_def
    using assms(2,3) e by (simp add: zeros2_def pad_cols_to_def)
qed

lemma collate_loop_append:
  "collate_loop batch ids (xs @ ys) st
     = and_then (collate_loop batch ids xs st) (collate_loop batch ids ys)"
  by (induction xs arbitrary: st) (simp_all split: sum.splits)

lemma collate_loop_fills:
  fixes batch :: "('a::zero) sample list"
  assumes ids: "length ids = n" "\<forall>i<n. ids ! i < length batch"
    and wf: "list_all (wf_sample F) batch"
    and bounds: "\<forall>x\<in>set batch. length (text_of x) \<le> mt \<and> length (tone_of x) \<le> mn
        \<and> length (f0_of x) \<le> mf \<and> dim1 (spec_of x) \<le> ms \<and> dim1 (wav_of x) \<le> mw"
  defines "row \<equiv> \<lambda>i. batch ! (ids ! i)"
  defines "filled \<equiv> \<lambda>k.
     \<lparr> text_padded = map (\<lambda>i. pad_to mt (text_of (row i))) [0..<k] @ replicate (n - k) (replicate mt 0),
       text_lengths = map (\<lambda>i. int (length (text_of (row i)))) [0..<k] @ replicate (n - k) 0,
       tone_padded = map (\<lambda>i. pad_to mn (tone_of (row i))) [0..<k] @ replicate (n - k) (replicate mn 0),
       tone_lengths = map (\<lambda>i. int (length (tone_of (row i)))) [0..<k] @ replicate (n - k) 0,
       f0_padded = map (\<lambda>i. pad_to mf (f0_of (row i))) [0..<k] @ replicate (n - k) (replicate mf 0),
       f0_lengths = map (\<lambda>i. int (length (f0_of (row i)))) [0..<k] @ replicate (n - k) 0,
       spec_padded = map (\<lambda>i. pad_cols_to ms (spec_of (row i))) [0..<k] @ replicate (n - k) (zeros2 F ms),
       spec_lengths = map (\<lambda>i. int (dim1 (spec_of (row i)))) [0..<k] @ replicate (n - k) 0,
       wav_padded = map (\<lambda>i. pad_cols_to mw (wav_of (row i))) [0..<k] @ replicate (n - k) (zeros2 1 mw),
       wav_lengths = map (\<lambda>i. int (dim1 (wav_of (row i)))) [0..<k] @ replicate (n - k) 0,
       ids_sorted_decreasing = None \<rparr>"
  shows "k \<le> n \<Longrightarrow> collate_loop batch ids [0..<k] (filled 0) = Inr (filled k)"
proof (induction k)
  case 0
  then show ?case by simp
next
  case (Suc k)
  have k: "k < n" using Suc.prems by simp
  have ih: "collate_loop batch ids [0..<k] (filled 0) = Inr (filled k)"
    using Suc by simp
  have mem: "row k \<in> set batch"
    using ids(2) k by (simp add: row_def)
  have w: "wf_tensor2 (spec_of (row k))" "dim0 (spec_of (row k)) = F"
    "wf_tensor2 (wav_of (row k))" "dim0 (wav_of (row k)) = 1"
    using wf mem by (auto simp: list_all_iff wf_sample_def)
  have b: "length (text_of (row k)) \<le> mt" "length (tone_of (row k)) \<le> mn"
    "length (f0_of (row k)) \<le> mf" "dim1 (spec_of (row k)) \<le> ms" "dim1 (wav_of (row k)) \<le> mw"
    using bounds mem by auto
  have lk: "length (map f [0..<k]) < n" for f :: "nat \<Rightarrow> 'b"
    using k by simp
  note r1 = set_row1_fresh[OF lk, simplified]
  note r2 = set_row2_fresh[OF lk, simplified]
  note rl = set_len_fresh[OF lk, simplified]
  have w4: "dim0 (wav_of (row k)) = Suc 0"
    using w(4) by simp
  have step: "collate_row (row k) k (filled k) = Inr (filled (Suc k))"
    unfolding collate_row_def filled_def
    by (simp add: r1[OF b(1)] r1[OF b(2)] r1[OF b(3)] rl
          r2[OF b(4) w(2) w(1)] r2[OF b(5) w4 w(3)])
  have idx: "py_index ids (int k) = Inr (ids ! k)" "py_index batch (int (ids ! k)) = Inr (row k)"
    using k ids by (simp_all add: py_index_def row_def)
  have one: "collate_loop batch ids [k] (filled k) = Inr (filled (Suc k))"
    by (simp add: idx step)
  have "collate_loop batch ids [0..<Suc k] (filled 0)
      = and_then (collate_loop batch ids [0..<k] (filled 0)) (collate_loop batch ids [k])"
    by (simp only: upt_Suc_append[OF le0] collate_loop_append)
  then show ?case
    by (simp only: ih and_then_Inr one)
qed

lemma map_nth_via: "map (\<lambda>i. f (xs ! i)) [0..<length xs] = map f xs"
proof -
  have "map (\<lambda>i. f (xs ! i)) [0..<length xs] = map f (map ((!) xs) [0..<length xs])"
    by simp
  then show ?thesis by (simp only: map_nth)
qed

lemma descending_three:
  assumes "distinct ids" "set ids = {0..<3}" "sorted (rev (map ((!) [5, 3, 7 :: int]) ids))"
  shows "map ((!) [5, 3, 7 :: int]) ids = [7, 5, 3]"
proof -
  define vs where "vs = map ((!) [5, 3, 7 :: int]) ids"
  have inj: "inj_on ((!) [5, 3, 7 :: int]) {0..<3}"
    by (auto simp: inj_on_def nth_Cons split: nat.splits)
  have d: "distinct (rev vs)"
    using assms(1,2) inj by (simp add: vs_def distinct_map)
  have "set vs = (!) [5, 3, 7 :: int] ` {0..<3}"
    by (simp add: vs_def assms(2))
  also have "{0..<3} = {0, 1, 2 :: nat}" by auto
  finally have s: "set (rev vs) = set [3, 5, 7 :: int]" by auto
  have "rev vs = [3, 5, 7]"
    using assms(3) d s by (intro sorted_distinct_set_unique) (simp_all add: vs_def)
  then have "rev (rev vs) = rev [3, 5, 7]" by (rule arg_cong)
  then show ?thesis by (simp add: vs_def)
qed

text \<open>
  Claim C7. For a non-empty batch of samples of the documented shapes and a sort that
  meets the library's contract, the collator returns, with \<open>rows\<close> the batch rearranged
  by the sort's indices: every field of every row zero-padded to that field's maximum
  length over the batch, and every true length, both at the row's sorted position; the
  rows are a rearrangement of the batch in descending order of spec time-length. In
  particular, for spec time-lengths \<open>[5, 3, 7]\<close> the rows have time-lengths
  \<open>[7, 5, 3]\<close>, which is also \<open>spec_lengths\<close>, and spec is padded to time \<open>7\<close>.
\<close>

theorem collate_sorts_and_pads:
  fixes batch :: "('a::zero) sample list"
  assumes ne: "batch \<noteq> []" and srt: "valid_sort_descending srt"
    and wf: "list_all (wf_sample F) batch"
  defines "ids \<equiv> srt (map (\<lambda>x. int (dim1 (spec_of x))) batch)"
  defines "rows \<equiv> map ((!) batch) ids"
  shows "collate srt return_ids batch
      = Inr \<lparr> text_padded = map (\<lambda>x. pad_to (Max ((\<lambda>x. length (text_of x)) ` set batch)) (text_of x)) rows,
              text_lengths = map (\<lambda>x. int (length (text_of x))) rows,
              tone_padded = map (\<lambda>x. pad_to (Max ((\<lambda>x. length (tone_of x)) ` set batch)) (tone_of x)) rows,
              tone_lengths = map (\<lambda>x. int (length (tone_of x))) rows,
              f0_padded = map (\<lambda>x. pad_to (Max ((\<lambda>x. length (f0_of x)) ` set batch)) (f0_of x)) rows,
              f0_lengths = map (\<lambda>x. int (length (f0_of x))) rows,
              spec_padded = map (\<lambda>x. pad_cols_to (Max ((\<lambda>x. dim1 (spec_of x)) ` set batch)) (spec_of x)) rows,
              spec_lengths = map (\<lambda>x. int (dim1 (spec_of x))) rows,
              wav_padded = map (\<lambda>x. pad_cols_to (Max ((\<lambda>x. dim1 (wav_of x)) ` set batch)) (wav_of x)) rows,
              wav_lengths = map (\<lambda>x. int (dim1 (wav_of x))) rows,
              ids_sorted_decreasing = (if return_ids then Some ids else None) \<rparr>
    \<and> distinct ids \<and> set ids = {0..<length batch}
    \<and> sorted (rev (map (\<lambda>x. int (dim1 (spec_of x))) rows))
    \<and> (map (\<lambda>x. int (dim1 (spec_of x))) batch = [5, 3, 7] \<longrightarrow>
          map (\<lambda>x. int (dim1 (spec_of x))) rows = [7, 5, 3]
          \<and> Max ((\<lambda>x. dim1 (spec_of x)) ` set batch) = 7)"
proof -
  define n where "n = length batch"
  define lens where "lens = map (\<lambda>x. int (dim1 (spec_of x))) batch"
  define mt where "mt = Max ((\<lambda>x. length (text_of x)) ` set batch)"
  define mn where "mn = Max ((\<lambda>x. length (tone_of x)) ` set batch)"
  define mf where "mf = Max ((\<lambda>x. length (f0_of x)) ` set batch)"
  define ms where "ms = Max ((\<lambda>x. dim1 (spec_of x)) ` set batch)"
  define mw where "mw = Max ((\<lambda>x. dim1 (wav_of x)) ` set batch)"
  have ids_def': "ids = srt lens" by (simp add: ids_def lens_def)
  have perm: "distinct ids" "set ids = {0..<n}" and desc: "sorted (rev (map ((!) lens) ids))"
    using srt unfolding valid_sort_descending_def ids_def' by (simp_all add: lens_def n_def)
  have "length ids = card (set ids)" using perm(1) by (simp add: distinct_card)
  then have len_ids: "length ids = n" by (simp add: perm(2))
  have in_range: "\<forall>i<n. ids ! i < length batch"
  proof (intro allI impI)
    fix i assume "i < n"
    then have "ids ! i \<in> set ids" using len_ids by simp
    then show "ids ! i < length batch" using perm(2) by (simp add: n_def)
  qed
  have vals: "map ((!) lens) ids = map (\<lambda>x. int (dim1 (spec_of x))) rows"
  proof -
    have "lens ! i = int (dim1 (spec_of (batch ! i)))" if "i \<in> set ids" for i
      using that perm(2) by (simp add: lens_def n_def)
    then show ?thesis by (simp add: rows_def)
  qed
  have bounds: "\<forall>x\<in>set batch. length (text_of x) \<le> mt \<and> length (tone_of x) \<le> mn
        \<and> length (f0_of x) \<le> mf \<and> dim1 (spec_of x) \<le> ms \<and> dim1 (wav_of x) \<le> mw"
    by (simp add: mt_def mn_def mf_def ms_def mw_def)
  have first: "py_index batch 0 = Inr (batch ! 0)" "dim0 (spec_of (batch ! 0)) = F"
  proof -
    show "py_index batch 0 = Inr (batch ! 0)" using ne by (simp add: py_index_def)
    have "batch ! 0 \<in> set batch" using ne by simp
    then show "dim0 (spec_of (batch ! 0)) = F"
      using wf by (auto simp: list_all_iff wf_sample_def)
  qed
  have loop: "collate_loop batch ids [0..<n]
       \<lparr> text_padded = replicate n (replicate mt 0), text_lengths = replicate n 0,
         tone_padded = replicate n (replicate mn 0), tone_lengths = replicate n 0,
         f0_padded = replicate n (replicate mf 0), f0_lengths = replicate n 0,
         spec_padded = replicate n (zeros2 F ms), spec_lengths = replicate n 0,
         wav_padded = replicate n (zeros2 1 mw), wav_lengths = replicate n 0,
         ids_sorted_decreasing = None \<rparr>
     = Inr \<lparr> text_padded = map (\<lambda>i. pad_to mt (text_of (batch ! (ids ! i)))) [0..<n],
             text_lengths = map (\<lambda>i. int (length (text_of (batch ! (ids ! i))))) [0..<n],
             tone_padded = map (\<lambda>i. pad_to mn (tone_of (batch ! (ids ! i)))) [0..<n],
             tone_lengths = map (\<lambda>i. int (length (tone_of (batch ! (ids ! i))))) [0..<n],
             f0_padded = map (\<lambda>i. pad_to mf (f0_of (batch ! (ids ! i)))) [0..<n],
             f0_lengths = map (\<lambda>i. int (length (f0_of (batch ! (ids ! i))))) [0..<n],
             spec_padded = map (\<lambda>i. pad_cols_to ms (spec_of (batch ! (ids ! i)))) [0..<n],
             spec_lengths = map (\<lambda>i. int (dim1 (spec_of (batch ! (ids ! i))))) [0..<n],
             wav_padded = map (\<lambda>i. pad_cols_to mw (wav_of (batch ! (ids ! i)))) [0..<n],
             wav_lengths = map (\<lambda>i. int (dim1 (wav_of (batch ! (ids ! i))))) [0..<n],
             ids_sorted_decreasing = None \<rparr>"
    using collate_loop_fills[OF len_ids in_range wf bounds, of n] by simp
  have rows_via: "map (\<lambda>i. f (batch ! (ids ! i))) [0..<n] = map f rows" for f :: "'a sample \<Rightarrow> 'b"
    using map_nth_via[of "\<lambda>k. f (batch ! k)" ids] by (simp add: len_ids rows_def)
  have run: "collate srt return_ids batch
      = Inr \<lparr> text_padded = map (\<lambda>x. pad_to mt (text_of x)) rows,
              text_lengths = map (\<lambda>x. int (length (text_of x))) rows,
              tone_padded = map (\<lambda>x. pad_to mn (tone_of x)) rows,
              tone_lengths = map (\<lambda>x. int (length (tone_of x))) rows,
              f0_padded = map (\<lambda>x. pad_to mf (f0_of x)) rows,
              f0_lengths = map (\<lambda>x. int (length (f0_of x))) rows,
              spec_padded = map (\<lambda>x. pad_cols_to ms (spec_of x)) rows,
              spec_lengths = map (\<lambda>x. int (dim1 (spec_of x))) rows,
              wav_padded = map (\<lambda>x. pad_cols_to mw (wav_of x)) rows,
              wav_lengths = map (\<lambda>x. int (dim1 (wav_of x))) rows,
              ids_sorted_decreasing = (if return_ids then Some ids else None) \<rparr>"
    unfolding collate_def Let_def ids_def[symmetric]
      py_max_Max[OF ne] mt_def[symmetric] mn_def[symmetric] mf_def[symmetric]
      ms_def[symmetric] mw_def[symmetric] and_then_Inr first nat_int
      n_def[symmetric] len_ids loop
    by (simp add: rows_via[of "\<lambda>x. pad_to mt (text_of x)"]
          rows_via[of "\<lambda>x. int (length (text_of x))"]
          rows_via[of "\<lambda>x. pad_to mn (tone_of x)"]
          rows_via[of "\<lambda>x. int (length (tone_of x))"]
          rows_via[of "\<lambda>x. pad_to mf (f0_of x)"]
          rows_via[of "\<lambda>x. int (length (f0_of x))"]
          rows_via[of "\<lambda>x. pad_cols_to ms (spec_of x)"]
          rows_via[of "\<lambda>x. int (dim1 (spec_of x))"]
          rows_via[of "\<lambda>x. pad_cols_to mw (wav_of x)"]
          rows_via[of "\<lambda>x. int (dim1 (wav_of x))"])
  have sorted_rows: "sorted (rev (map (\<lambda>x. int (dim1 (spec_of x))) rows))"
    using desc by (simp only: vals)
  have particular: "map (\<lambda>x. int (dim1 (spec_of x))) rows = [7, 5, 3] \<and> ms = 7"
    if l: "map (\<lambda>x. int (dim1 (spec_of x))) batch = [5, 3, 7]"
  proof -
    have lens: "lens = [5, 3, 7]" using l by (simp add: lens_def)
    have "length lens = 3" by (simp add: lens)
    then have n3: "n = 3" by (simp add: lens_def n_def)
    have "map ((!) [5, 3, 7 :: int]) ids = [7, 5, 3]"
      using perm desc by (intro descending_three) (simp_all add: n3 lens)
    then have a: "map (\<lambda>x. int (dim1 (spec_of x))) rows = [7, 5, 3]"
      using vals by (simp add: lens)
    have "int ms = Max (int ` ((\<lambda>x. dim1 (spec_of x)) ` set batch))"
      unfolding ms_def using ne by (intro mono_Max_commute) (auto simp: mono_def)
    also have "int ` ((\<lambda>x. dim1 (spec_of x)) ` set batch) = set lens"
      by (simp add: lens_def image_image)
    also have "Max (set lens) = 7" by (simp add: lens)
    finally have "ms = 7" by simp
    then show ?thesis using a by simp
  qed
  show ?thesis
    using run perm sorted_rows particular
    unfolding mt_def mn_def mf_def ms_def mw_def n_def by blast
qed

lemma example_sort_descending_valid: "valid_sort_descending example_sort_descending"
  unfolding valid_sort_descending_def
proof (intro allI conjI)
  fix xs :: "int list"
  define zs where "zs = sort_key fst (zip xs [0..<length xs])"
  have set_zs: "set zs = set (zip xs [0..<length xs])" by (simp add: zs_def)
  have "distinct (zip xs [0..<length xs])" by (simp add: distinct_zipI2)
  then have dz: "distinct zs" by (simp add: zs_def)
  have inj: "inj_on snd (set zs)"
    unfolding set_zs by (auto simp: inj_on_def in_set_zip)
  have d: "distinct (map snd zs)" using dz inj by (simp add: distinct_map)
  have s: "set (map snd zs) = {0..<length xs}"
  proof -
    have m: "map snd (zip xs [0..<length xs]) = [0..<length xs]"
      by (rule map_snd_zip) simp
    have "set (map snd zs) = snd ` set (zip xs [0..<length xs])" by (simp add: set_zs)
    also have "\<dots> = set (map snd (zip xs [0..<length xs]))" by (simp only: set_map)
    also have "\<dots> = {0..<length xs}" by (simp only: m set_upt)
    finally show ?thesis .
  qed
  have eq: "map ((!) xs) (map snd zs) = map fst zs"
  proof -
    have "xs ! snd z = fst z" if "z \<in> set zs" for z
      using that unfolding set_zs by (auto simp: in_set_zip)
    then show ?thesis by simp
  qed
  have "sorted (map fst zs)" by (simp add: zs_def)
  then have srt: "sorted (map ((!) xs) (map snd zs))" by (simp only: eq)
  show "distinct (example_sort_descending xs)"
    using d by (simp add: example_sort_descending_def zs_def)
  show "set (example_sort_descending xs) = {0..<length xs}"
    using s by (simp add: example_sort_descending_def zs_def)
  show "sorted (rev (map ((!) xs) (example_sort_descending xs)))"
    using srt by (simp add: example_sort_descending_def zs_def rev_map)
qed

text \<open>
  The batch of the claim: text and spec lengths \<open>[5, 3, 7]\<close>. The rows come out in the
  order 7, 5, 3, with every spec padded to 7 frames and every text to 7 entries.
\<close>

theorem collate_sorts_and_pads_witness:
  "example_batch \<noteq> [] \<and> valid_sort_descending example_sort_descending
   \<and> list_all (wf_sample 2) example_batch
   \<and> map (\<lambda>x. int (length (text_of x))) example_batch = [5, 3, 7]
   \<and> map (\<lambda>x. int (dim1 (spec_of x))) example_batch = [5, 3, 7]
   \<and> map_sum id spec_lengths (collate example_sort_descending False example_batch) = Inr [7, 5, 3]
   \<and> map_sum id text_lengths (collate example_sort_descending False example_batch) = Inr [7, 5, 3]
   \<and> map_sum id (map dim1 \<circ> spec_padded) (collate example_sort_descending False example_batch)
       = Inr [7, 7, 7]
   \<and> map_sum id (map length \<circ> text_padded) (collate example_sort_descending False example_batch)
       = Inr [7, 7, 7]"
proof -
  have h1: "example_batch \<noteq> []"
    by (simp add: example_batch_def)
  have h3: "list_all (wf_sample 2) example_batch"
    by code_simp
  have t: "map (\<lambda>x. int (length (text_of x))) example_batch = [5, 3, 7]"
    by (simp add: example_batch_def example_sample_def text_of_def)
  have l: "map (\<lambda>x. int (dim1 (spec_of x))) example_batch = [5, 3, 7]"
    by (simp add: example_batch_def example_sample_def spec_of_def)
  note inst = collate_sorts_and_pads[OF h1 example_sort_descending_valid h3, of False]
  have rows: "map (\<lambda>x. int (dim1 (spec_of x)))
      (map ((!) example_batch)
        (example_sort_descending (map (\<lambda>x. int (dim1 (spec_of x))) example_batch))) = [7, 5, 3]"
    using inst l by blast
  have run: "collate example_sort_descending False example_batch
     = Inr \<lparr> text_padded = map (\<lambda>x. pad_to (Max ((\<lambda>x. length (text_of x)) ` set example_batch)) (text_of x))
                (map ((!) example_batch)
                  (example_sort_descending (map (\<lambda>x. int (dim1 (spec_of x))) example_batch))),
              text_lengths = map (\<lambda>x. int (length (text_of x)))
                (map ((!) example_batch)
                  (example_sort_descending (map (\<lambda>x. int (dim1 (spec_of x))) example_batch))),
              tone_padded = map (\<lambda>x. pad_to (Max ((\<lambda>x. length (tone_of x)) ` set example_batch)) (tone_of x))
                (map ((!) example_batch)
                  (example_sort_descending (map (\<lambda>x. int (dim1 (spec_of x))) example_batch))),
              tone_lengths = map (\<lambda>x. int (length (tone_of x)))
                (map ((!) example_batch)
                  (example_sort_descending (map (\<lambda>x. int (dim1 (spec_of x))) example_batch))),
              f0_padded = map (\<lambda>x. pad_to (Max ((\<lambda>x. length (f0_of x)) ` set example_batch)) (f0_of x))
                (map ((!) example_batch)
                  (example_sort_descending (map (\<lambda>x. int (dim1 (spec_of x))) example_batch))),
              f0_lengths = map (\<lambda>x. int (length (f0_of x)))
                (map ((!) example_batch)
                  (example_sort_descending (map (\<lambda>x. int (dim1 (spec_of x))) example_batch))),
              spec_padded = map (\<lambda>x. pad_cols_to (Max ((\<lambda>x. dim1 (spec_of x)) ` set example_batch)) (spec_of x))
                (map ((!) example_batch)
                  (example_sort_descending (map (\<lambda>x. int (dim1 (spec_of x))) example_batch))),
              spec_lengths = map (\<lambda>x. int (dim1 (spec_of x)))
                (map ((!) example_batch)
                  (example_sort_descending (map (\<lambda>x. int (dim1 (spec_of x))) example_batch))),
              wav_padded = map (\<lambda>x. pad_cols_to (Max ((\<lambda>x. dim1 (wav_of x)) ` set example_batch)) (wav_of x))
                (map ((!) example_batch)
                  (example_sort_descending (map (\<lambda>x. int (dim1 (spec_of x))) example_batch))),
              wav_lengths = map (\<lambda>x. int (dim1 (wav_of x)))
                (map ((!) example_batch)
                  (example_sort_descending (map (\<lambda>x. int (dim1 (spec_of x))) example_batch))),
              ids_sorted_decreasing = (if False then Some (example_sort_descending (map (\<lambda>x. int (dim1 (spec_of x))) example_batch)) else None) \<rparr>"
    using inst by (rule conjunct1)
  have a: "map_sum id spec_lengths (collate example_sort_descending False example_batch) = Inr [7, 5, 3]"
    unfolding run using rows by (simp del: map_map)
  have b: "map_sum id text_lengths (collate example_sort_descending False example_batch) = Inr [7, 5, 3]"
    by code_simp
  have c: "map_sum id (map dim1 \<circ> spec_padded) (collate example_sort_descending False example_batch)
       = Inr [7, 7, 7]"
    by code_simp
  have d: "map_sum id (map length \<circ> text_padded) (collate example_sort_descending False example_batch)
       = Inr [7, 7, 7]"
    by code_simp
  show ?thesis
    using h1 example_sort_descending_valid h3 t l a b c d by simp
qed

end
